theory Spec2Isabelle
  imports Main "HOL-Library.Word"
begin

section \<open>The pooled SQL connections of the application server\<close>

text \<open>
  A shallow embedding of \<^verbatim>\<open>TSqlDatabasePool\<close> (tsqldatabasepool.cpp): the two
  stacks of connection names per database, the time of the last return, the
  registration of the slots at start-up, \<^verbatim>\<open>database()\<close> (acquire),
  \<^verbatim>\<open>pool()\<close> (release) and the timer event that closes idle connections.

  A \<^verbatim>\<open>QString\<close> is a \<^typ>\<open>string\<close>; a character is one code unit in the
  Latin-1 range. A C++ \<^verbatim>\<open>int\<close> is an \<^typ>\<open>int\<close>: the pool does no arithmetic
  on its indices beyond counting up to a configured bound. The \<^verbatim>\<open>uint\<close> clock
  values are 32-bit words, whose subtraction wraps as the unsigned subtraction
  of the source does.
\<close>

subsection \<open>The string operations of the library that the pool calls\<close>

text \<open>\<^verbatim>\<open>QChar::isSpace\<close>: the space, \<^verbatim>\<open>\t \n \v \f \r\<close>, and in the Latin-1 range
  the next-line and no-break-space characters.\<close>

definition isSpace :: "char \<Rightarrow> bool" where
  "isSpace c =
     (let n = (of_char c :: nat)
      in n = 32 \<or> (9 \<le> n \<and> n \<le> 13) \<or> n = 133 \<or> n = 160)"

text \<open>\<^verbatim>\<open>QString::trimmed\<close>: white space removed from both ends.\<close>

definition trimmed :: "string \<Rightarrow> string" where
  "trimmed s = rev (dropWhile isSpace (rev (dropWhile isSpace s)))"

text \<open>\<^verbatim>\<open>QString::mid(pos, n)\<close>: at most \<open>n\<close> characters from offset \<open>pos\<close>; the
  empty string when \<open>pos\<close> is past the end.\<close>

definition mid :: "nat \<Rightarrow> nat \<Rightarrow> string \<Rightarrow> string" where
  "mid pos n s = take n (drop pos s)"

text \<open>\<^verbatim>\<open>QString::split(sep)\<close> keeping the empty parts, and with
  \<^verbatim>\<open>QString::SkipEmptyParts\<close>.\<close>

fun split_on :: "char \<Rightarrow> string \<Rightarrow> string list" where
  "split_on sep [] = [[]]"
| "split_on sep (c # cs) =
     (if c = sep then [] # split_on sep cs
      else (case split_on sep cs of
              [] \<Rightarrow> [[c]]
            | f # fs \<Rightarrow> (c # f) # fs))"

definition split_skip_empty :: "char \<Rightarrow> string \<Rightarrow> string list" where
  "split_skip_empty sep s = filter (\<lambda>f. f \<noteq> []) (split_on sep s)"

text \<open>Decimal digits.\<close>

definition isDigit :: "char \<Rightarrow> bool" where
  "isDigit c = (let n = (of_char c :: nat) in 48 \<le> n \<and> n \<le> 57)"

definition digit_val :: "char \<Rightarrow> nat" where
  "digit_val c = (of_char c :: nat) - 48"

definition digit_char :: "nat \<Rightarrow> char" where
  "digit_char n = char_of (48 + n)"

fun parse_digits :: "nat \<Rightarrow> string \<Rightarrow> nat option" where
  "parse_digits acc [] = Some acc"
| "parse_digits acc (c # cs) =
     (if isDigit c then parse_digits (10 * acc + digit_val c) cs else None)"

text \<open>
  \<^verbatim>\<open>QString::toInt(&ok)\<close> in base 10: white space at both ends is ignored, a
  sign is allowed, at least one digit is needed, and the value has to fit a
  32-bit \<^verbatim>\<open>int\<close>. On failure the value is 0 and \<open>ok\<close> is false.
\<close>

definition toInt :: "string \<Rightarrow> int \<times> bool" where
  "toInt s =
     (let t = trimmed s;
          neg = (t \<noteq> [] \<and> hd t = CHR ''-'');
          ds = (if t \<noteq> [] \<and> (hd t = CHR ''-'' \<or> hd t = CHR ''+'') then tl t else t)
      in if ds = [] then (0, False)
         else (case parse_digits 0 ds of
                 None \<Rightarrow> (0, False)
               | Some v \<Rightarrow>
                   (let r = (if neg then - int v else int v)
                    in if - 2147483648 \<le> r \<and> r \<le> 2147483647 then (r, True)
                       else (0, False))))"

text \<open>The conversions \<^verbatim>\<open>%d\<close> and \<^verbatim>\<open>%02d\<close> of \<^verbatim>\<open>sprintf\<close>.\<close>

fun digits_nat :: "nat \<Rightarrow> string" where
  "digits_nat n =
     (if n < 10 then [digit_char n]
      else digits_nat (n div 10) @ [digit_char (n mod 10)])"

declare digits_nat.simps [simp del]

definition fmt_d :: "int \<Rightarrow> string" where
  "fmt_d i = (if i < 0 then CHR ''-'' # digits_nat (nat (- i)) else digits_nat (nat i))"

definition fmt_02d :: "int \<Rightarrow> string" where
  "fmt_02d i = (if 0 \<le> i \<and> i < 10 then CHR ''0'' # fmt_d i else fmt_d i)"

text \<open>\<^verbatim>\<open>CONN_NAME_FORMAT = "rdb%02d_%d"\<close>, applied to the database index and the
  slot index.\<close>

definition conn_name :: "int \<Rightarrow> int \<Rightarrow> string" where
  "conn_name j i = ''rdb'' @ fmt_02d j @ ''_'' @ fmt_d i"

text \<open>The grammar of connection names, \<^verbatim>\<open>rdb[0-9]{2}_[0-9]+\<close>, as the
  specification writes it.\<close>

definition conn_name_grammar :: "string \<Rightarrow> bool" where
  "conn_name_grammar s =
     (7 \<le> length s \<and> take 3 s = ''rdb'' \<and> isDigit (s ! 3) \<and> isDigit (s ! 4)
      \<and> s ! 5 = CHR ''_'' \<and> list_all isDigit (drop 6 s))"

subsection \<open>Handles\<close>

text \<open>
  A \<^verbatim>\<open>QSqlDatabase\<close> value is a handle on a named connection: it is valid when
  it has a driver. Whether the connection is open belongs to the connection,
  not to the handle, and is kept in the pool state below. The default
  constructed handle is invalid and has the empty name.
\<close>

record QSqlDatabase =
  connectionName :: string
  isValid :: bool

definition QSqlDatabase_default :: QSqlDatabase where
  "QSqlDatabase_default = \<lparr>connectionName = [], isValid = False\<rparr>"

text \<open>\<^verbatim>\<open>TSqlDatabasePool::getDatabaseId\<close>.\<close>

definition getDatabaseId :: "QSqlDatabase \<Rightarrow> int" where
  "getDatabaseId database =
     (let (id, ok) = toInt (mid 3 2 (connectionName database))
      in if ok \<and> id \<ge> 0 then id else - 1)"

subsection \<open>The host application and the driver library\<close>

text \<open>
  The settings of one database as the configuration source yields them, with
  the conversions of the source already applied where they cannot fail
  (\<^verbatim>\<open>toInt\<close> for the port, \<^verbatim>\<open>toBool\<close> with default false for the upsert flag).
\<close>

record db_settings =
  DriverType :: string
  DatabaseName :: string
  HostName :: string
  Port :: int
  UserName :: string
  Password :: string
  ConnectOptions :: string
  PostOpenStatements :: string
  EnableUpsert :: bool

datatype DbmsType = SQLite | OtherDbms

text \<open>
  What the pool reads from \<^verbatim>\<open>Tf::app()\<close>, and the answers of the driver library
  that the pool cannot influence: whether a driver type yields a valid
  connection, the kind of engine behind a driver type, whether opening a named
  connection succeeds, whether a file path is relative, and the identifier the
  event loop gives to a started timer.
\<close>

record env =
  isSqlDatabaseAvailable :: bool
  sqlDatabaseSettingsCount :: int
  maxNumberOfThreadsPerAppServer :: int
  sqlDatabaseSettings :: "int \<Rightarrow> db_settings"
  webRootPath :: string
  addDatabaseValid :: "string \<Rightarrow> string \<Rightarrow> bool"
  driverDbmsType :: "string \<Rightarrow> DbmsType"
  driverOpen :: "string \<Rightarrow> bool"
  isRelative :: "string \<Rightarrow> bool"
  startedTimerId :: int

subsection \<open>Registered connections and the pool state\<close>

text \<open>Modelled from the spec: the slot (\<^verbatim>\<open>class TSqlDatabase\<close>, tsqldatabase.h is
  missing): the handle of its connection, the kind of engine, the connection
  parameters that the settings are applied to, the statements to replay after
  an open, the upsert flag and the driver extension (here the driver name that
  the factory was asked for).\<close>

record TSqlDatabase =
  sqlDatabase :: QSqlDatabase
  dbmsType :: DbmsType
  driverName :: string
  databaseName :: string
  hostName :: string
  port :: int
  userName :: string
  password :: string
  connectOptions :: string
  postOpenStatements :: "string list"
  upsertEnabled :: bool
  driverExtension :: "string option"

definition TSqlDatabase_default :: TSqlDatabase where
  "TSqlDatabase_default =
     \<lparr>sqlDatabase = QSqlDatabase_default, dbmsType = OtherDbms, driverName = [],
      databaseName = [], hostName = [], port = 0, userName = [], password = [],
      connectOptions = [], postOpenStatements = [], upsertEnabled = False,
      driverExtension = None\<rparr>"

datatype error = RuntimeException string | ArrayOutOfBounds

text \<open>
  The members of the pool (\<open>cachedDatabase\<close>, \<open>lastCachedTime\<close>,
  \<open>availableNames\<close>, \<open>timer\<close>) and the state of its collaborators that the
  pool changes: the dictionary of registered connections, the set of
  connections that are open, and the statements executed so far, each with the
  name of its connection, oldest first. A stack is a list whose head is the
  top. The arrays hold one stack per database index; the source guards its
  reads of them with \<open>0 \<le> id < sqlDatabaseSettingsCount\<close>, and an access that
  is not guarded and out of range is the error \<open>ArrayOutOfBounds\<close>.
  The timer is \<open>None\<close> until it is started, then its identifier and interval.
\<close>

record pool_state =
  cachedDatabase :: "int \<Rightarrow> string list"
  lastCachedTime :: "int \<Rightarrow> 32 word"
  availableNames :: "int \<Rightarrow> string list"
  timer :: "(int \<times> int) option"
  registry :: "string \<rightharpoonup> TSqlDatabase"
  openConnections :: "string set"
  executed :: "(string \<times> string) list"

text \<open>Modelled from the spec: \<^verbatim>\<open>TSqlDatabase::addDatabase\<close> (tsqldatabase.cpp is
  missing), the registry's \<open>add(driverType, name)\<close>: it enters a connection of
  that name into the dictionary and returns it; the handle is valid when the
  driver library knows the driver type.\<close>

definition addDatabase :: "env \<Rightarrow> pool_state \<Rightarrow> string \<Rightarrow> string \<Rightarrow> TSqlDatabase \<times> pool_state" where
  "addDatabase e s type name =
     (let db = TSqlDatabase_default
                 \<lparr>sqlDatabase := \<lparr>connectionName = name, isValid = addDatabaseValid e type name\<rparr>,
                  dbmsType := driverDbmsType e type,
                  driverName := type\<rparr>
      in (db, s\<lparr>registry := (registry s)(name \<mapsto> db)\<rparr>))"

text \<open>Modelled from the spec: \<^verbatim>\<open>TSqlDatabase::database(name)\<close> (tsqldatabase.cpp is
  missing), the registry's \<open>lookup(name)\<close>; a name that was never added yields
  the default constructed connection.\<close>

definition TSqlDatabase_database :: "pool_state \<Rightarrow> string \<Rightarrow> TSqlDatabase" where
  "TSqlDatabase_database s name =
     (case registry s name of None \<Rightarrow> TSqlDatabase_default | Some db \<Rightarrow> db)"

text \<open>\<^verbatim>\<open>QSqlDatabase::isOpen\<close>, \<^verbatim>\<open>open\<close> and \<^verbatim>\<open>close\<close>, and \<^verbatim>\<open>TSqlQuery::exec\<close>,
  whose result the pool discards.\<close>

definition isOpen :: "pool_state \<Rightarrow> QSqlDatabase \<Rightarrow> bool" where
  "isOpen s h = (isValid h \<and> connectionName h \<in> openConnections s)"

definition open_db :: "env \<Rightarrow> pool_state \<Rightarrow> QSqlDatabase \<Rightarrow> bool \<times> pool_state" where
  "open_db e s h =
     (if isValid h \<and> driverOpen e (connectionName h)
      then (True, s\<lparr>openConnections := insert (connectionName h) (openConnections s)\<rparr>)
      else (False, s))"

definition close_db :: "pool_state \<Rightarrow> QSqlDatabase \<Rightarrow> pool_state" where
  "close_db s h = s\<lparr>openConnections := openConnections s - {connectionName h}\<rparr>"

definition exec :: "QSqlDatabase \<Rightarrow> string \<Rightarrow> pool_state \<Rightarrow> pool_state" where
  "exec h st s = s\<lparr>executed := executed s @ [(connectionName h, st)]\<rparr>"

text \<open>Modelled from the spec: the concurrent stack (\<^verbatim>\<open>TStack\<close>, tstack.h is
  missing), for one stack of an array: \<open>push\<close> never fails, \<open>pop\<close> yields the
  name pushed last, or fails on the empty stack.\<close>

definition push :: "string \<Rightarrow> int \<Rightarrow> (int \<Rightarrow> string list) \<Rightarrow> (int \<Rightarrow> string list)" where
  "push name i stacks = stacks(i := name # stacks i)"

definition pop :: "int \<Rightarrow> (int \<Rightarrow> string list) \<Rightarrow> (string \<times> (int \<Rightarrow> string list)) option" where
  "pop i stacks =
     (case stacks i of [] \<Rightarrow> None | name # rest \<Rightarrow> Some (name, stacks(i := rest)))"

subsection \<open>Applying the settings to a slot\<close>

text \<open>\<^verbatim>\<open>TSqlDatabasePool::setDatabaseSettings\<close>: the result and the connection as
  it has changed it.\<close>

definition setDatabaseSettings :: "env \<Rightarrow> TSqlDatabase \<Rightarrow> int \<Rightarrow> bool \<times> TSqlDatabase" where
  "setDatabaseSettings e database databaseId =
     (let settings = sqlDatabaseSettings e databaseId;
          dbName = trimmed (DatabaseName settings)
      in if dbName = [] then (False, database)
         else
           (let dbName' =
                  (if dbmsType database = SQLite \<and> CHR '':'' \<notin> set dbName \<and> isRelative e dbName
                   then webRootPath e @ dbName else dbName);
                db1 = database\<lparr>databaseName := dbName'\<rparr>;
                host = trimmed (HostName settings);
                db2 = (if host \<noteq> [] then db1\<lparr>hostName := host\<rparr> else db1);
                db3 = (if Port settings > 0 then db2\<lparr>port := Port settings\<rparr> else db2);
                user = trimmed (UserName settings);
                db4 = (if user \<noteq> [] then db3\<lparr>userName := user\<rparr> else db3);
                pass = trimmed (Password settings);
                db5 = (if pass \<noteq> [] then db4\<lparr>password := pass\<rparr> else db4);
                opts = trimmed (ConnectOptions settings);
                db6 = (if opts \<noteq> [] then db5\<lparr>connectOptions := opts\<rparr> else db5);
                stmts = split_skip_empty CHR '';'' (trimmed (PostOpenStatements settings));
                db7 = (if stmts \<noteq> [] then db6\<lparr>postOpenStatements := stmts\<rparr> else db6);
                db8 = db7\<lparr>upsertEnabled := EnableUpsert settings\<rparr>;
                db9 = db8\<lparr>driverExtension := Some (driverName db8)\<rparr>
            in (True, db9)))"

subsection \<open>Start-up\<close>

definition driverType :: "env \<Rightarrow> int \<Rightarrow> string" where
  "driverType e databaseId = trimmed (DriverType (sqlDatabaseSettings e databaseId))"

text \<open>The inner loop of \<^verbatim>\<open>init\<close> over the slot indices that remain; the
  \<^verbatim>\<open>break\<close> ends it. The connection is a reference into the dictionary, so
  what \<open>setDatabaseSettings\<close> changes is stored there; its result is not
  looked at.\<close>

fun init_slots :: "env \<Rightarrow> string \<Rightarrow> int \<Rightarrow> int list \<Rightarrow> pool_state \<Rightarrow> pool_state" where
  "init_slots e type j [] s = s"
| "init_slots e type j (i # is) s =
     (let (db, s1) = addDatabase e s type (conn_name j i)
      in if \<not> isValid (sqlDatabase db) then s1
         else
           (let (ok, db') = setDatabaseSettings e db j;
                s2 = s1\<lparr>registry := (registry s1)(conn_name j i \<mapsto> db')\<rparr>;
                s3 = s2\<lparr>availableNames :=
                          push (connectionName (sqlDatabase db')) j (availableNames s2)\<rparr>
            in init_slots e type j is s3))"

text \<open>The outer loop, with the flag \<open>aval\<close>.\<close>

fun init_databases :: "env \<Rightarrow> int list \<Rightarrow> bool \<Rightarrow> pool_state \<Rightarrow> bool \<times> pool_state" where
  "init_databases e [] aval s = (aval, s)"
| "init_databases e (j # js) aval s =
     (let type = driverType e j
      in if type = [] then init_databases e js aval s
         else init_databases e js True
                (init_slots e type j [0..maxNumberOfThreadsPerAppServer e - 1] s))"

text \<open>\<^verbatim>\<open>TSqlDatabasePool::init\<close>, with \<open>maxConnects\<close> as \<^verbatim>\<open>instance()\<close> sets it. The
  new stacks are empty; the new time stamps are not initialised, so they keep
  whatever the state held.\<close>

definition init :: "env \<Rightarrow> pool_state \<Rightarrow> pool_state" where
  "init e s =
     (if \<not> isSqlDatabaseAvailable e then s
      else
        (let s0 = s\<lparr>cachedDatabase := (\<lambda>_. []), availableNames := (\<lambda>_. [])\<rparr>;
             (aval, s1) = init_databases e [0..sqlDatabaseSettingsCount e - 1] False s0
         in if aval then s1\<lparr>timer := Some (startedTimerId e, 10000)\<rparr> else s1))"

subsection \<open>Acquire\<close>

text \<open>The statements after a successful open, each trimmed and executed.\<close>

fun exec_all :: "QSqlDatabase \<Rightarrow> string list \<Rightarrow> pool_state \<Rightarrow> pool_state" where
  "exec_all h [] s = s"
| "exec_all h (st # sts) s = exec_all h sts (exec h (trimmed st) s)"

text \<open>
  The \<^verbatim>\<open>for (;;)\<close> of \<^verbatim>\<open>TSqlDatabasePool::database\<close>. With both stacks empty it
  goes round without changing anything, so in this sequential model it never
  returns: the value is \<open>None\<close>.
\<close>

partial_function (option) database_loop ::
  "env \<Rightarrow> int \<Rightarrow> pool_state \<Rightarrow> (QSqlDatabase \<times> pool_state) option" where
  "database_loop e databaseId s =
     (case pop databaseId (cachedDatabase s) of
        Some (name, cache') \<Rightarrow>
          (if isOpen s (sqlDatabase (TSqlDatabase_database s name))
           then Some (sqlDatabase (TSqlDatabase_database s name), s\<lparr>cachedDatabase := cache'\<rparr>)
           else database_loop e databaseId
                  (s\<lparr>cachedDatabase := cache',
                     availableNames := push name databaseId (availableNames s)\<rparr>))
      | None \<Rightarrow>
          (case pop databaseId (availableNames s) of
             Some (name, stack') \<Rightarrow>
               (if isOpen s (sqlDatabase (TSqlDatabase_database s name))
                then Some (sqlDatabase (TSqlDatabase_database s name), s\<lparr>availableNames := stack'\<rparr>)
                else if \<not> fst (open_db e s (sqlDatabase (TSqlDatabase_database s name)))
                then Some (QSqlDatabase_default,
                           s\<lparr>availableNames := push name databaseId stack'\<rparr>)
                else
                  Some (sqlDatabase (TSqlDatabase_database s name),
                        (if postOpenStatements (TSqlDatabase_database s name) \<noteq> []
                         then exec_all (sqlDatabase (TSqlDatabase_database s name))
                                (postOpenStatements (TSqlDatabase_database s name))
                         else id)
                          ((snd (open_db e s (sqlDatabase (TSqlDatabase_database s name))))
                             \<lparr>availableNames := stack'\<rparr>)))
           | None \<Rightarrow> database_loop e databaseId s))"

text \<open>\<^verbatim>\<open>TSqlDatabasePool::database\<close>: what it returns or throws, and the state
  after it.\<close>

definition database :: "env \<Rightarrow> int \<Rightarrow> pool_state \<Rightarrow> ((error + QSqlDatabase) \<times> pool_state) option" where
  "database e databaseId s =
     (if \<not> isSqlDatabaseAvailable e then Some (Inr (sqlDatabase TSqlDatabase_default), s)
      else if databaseId \<ge> 0 \<and> databaseId < sqlDatabaseSettingsCount e then
        (case database_loop e databaseId s of
           None \<Rightarrow> None
         | Some (h, s') \<Rightarrow> Some (Inr h, s'))
      else Some (Inl (RuntimeException ''No pooled connection''), s))"

subsection \<open>Release and the timer\<close>

text \<open>\<^verbatim>\<open>TSqlDatabasePool::closeDatabase\<close>. It indexes \<open>availableNames\<close> with the
  identifier it parses from the name, without a check.\<close>

definition closeDatabase :: "env \<Rightarrow> pool_state \<Rightarrow> QSqlDatabase \<Rightarrow> error + pool_state" where
  "closeDatabase e s db =
     (let ident = getDatabaseId db;
          name = connectionName db;
          s1 = close_db s db
      in if 0 \<le> ident \<and> ident < sqlDatabaseSettingsCount e
         then Inr (s1\<lparr>availableNames := push name ident (availableNames s1)\<rparr>)
         else Inl ArrayOutOfBounds)"

text \<open>\<^verbatim>\<open>TSqlDatabasePool::pool\<close>: the handle of the caller after the call, and the
  state. \<open>now\<close> is \<^verbatim>\<open>(uint)std::time(nullptr)\<close>.\<close>

definition pool ::
  "env \<Rightarrow> 32 word \<Rightarrow> pool_state \<Rightarrow> QSqlDatabase \<Rightarrow> bool \<Rightarrow> error + (QSqlDatabase \<times> pool_state)" where
  "pool e now s db forceClose =
     (if isValid db then
        (let databaseId = getDatabaseId db
         in if databaseId \<ge> 0 \<and> databaseId < sqlDatabaseSettingsCount e then
              (if forceClose then
                 (case closeDatabase e s db of
                    Inl err \<Rightarrow> Inl err
                  | Inr s' \<Rightarrow> Inr (QSqlDatabase_default, s'))
               else
                 Inr (QSqlDatabase_default,
                      s\<lparr>cachedDatabase := push (connectionName db) databaseId (cachedDatabase s),
                        lastCachedTime := (lastCachedTime s)(databaseId := now)\<rparr>))
            else Inr (QSqlDatabase_default, s))
      else Inr (QSqlDatabase_default, s))"

text \<open>The \<^verbatim>\<open>while\<close> of \<^verbatim>\<open>timerEvent\<close> for one database. The clock is read once
  for the whole event.\<close>

function reap_cache :: "env \<Rightarrow> 32 word \<Rightarrow> int \<Rightarrow> pool_state \<Rightarrow> error + pool_state" where
  "reap_cache e now i s =
     (if lastCachedTime s i < now - 30 then
        (case pop i (cachedDatabase s) of
           None \<Rightarrow> Inr s
         | Some (name, cache') \<Rightarrow>
             (case closeDatabase e (s\<lparr>cachedDatabase := cache'\<rparr>)
                     (sqlDatabase (TSqlDatabase_database s name)) of
                Inl err \<Rightarrow> Inl err
              | Inr s' \<Rightarrow> reap_cache e now i s'))
      else Inr s)"
  by pat_completeness auto
termination
proof (relation "measure (\<lambda>(e, now, i, s). length (cachedDatabase s i))")
  show "wf (measure (\<lambda>(e, now, i, s). length (cachedDatabase s i)))"
    by simp
next
  fix e :: env and now :: "32 word" and i :: int and s :: pool_state
    and x2 x y s'
  assume "pop i (cachedDatabase s) = Some x2" and "(x, y) = x2"
    and "closeDatabase e (s\<lparr>cachedDatabase := y\<rparr>) (sqlDatabase (TSqlDatabase_database s x)) = Inr s'"
  then show "((e, now, i, s'), (e, now, i, s))
               \<in> measure (\<lambda>(e, now, i, s). length (cachedDatabase s i))"
    by (auto simp: pop_def closeDatabase_def close_db_def Let_def
             split: list.splits if_splits)
qed

declare reap_cache.simps [simp del]

text \<open>The \<^verbatim>\<open>for\<close> of \<^verbatim>\<open>timerEvent\<close> over the databases that remain.\<close>

fun reap_databases :: "env \<Rightarrow> 32 word \<Rightarrow> int list \<Rightarrow> pool_state \<Rightarrow> error + pool_state" where
  "reap_databases e now [] s = Inr s"
| "reap_databases e now (i # is) s =
     (if length (cachedDatabase s i) = 0 then reap_databases e now is s
      else (case reap_cache e now i s of
              Inl err \<Rightarrow> Inl err
            | Inr s' \<Rightarrow> reap_databases e now is s'))"

text \<open>\<^verbatim>\<open>TSqlDatabasePool::timerEvent\<close> for an event with the given timer
  identifier; an event of another timer goes to the base class and leaves the
  pool as it is.\<close>

definition timerEvent :: "env \<Rightarrow> 32 word \<Rightarrow> int \<Rightarrow> pool_state \<Rightarrow> error + pool_state" where
  "timerEvent e now eventTimerId s =
     (if (case timer s of None \<Rightarrow> False | Some (tid, ival) \<Rightarrow> eventTimerId = tid)
      then reap_databases e now [0..sqlDatabaseSettingsCount e - 1] s
      else Inr s)"

subsection \<open>The statements of the specification that are compared with the code\<close>

text \<open>The parse of \<open>PostOpenStatements\<close> in the words of the specification:
  split on \<open>;\<close>, drop the empty fragments, trim each fragment.\<close>

definition spec_parse_statements :: "string \<Rightarrow> string list" where
  "spec_parse_statements str = map trimmed (filter (\<lambda>f. f \<noteq> []) (split_on CHR '';'' str))"

text \<open>
  The names that the two stacks of database \<open>d\<close> hold; and the conservation of
  the slots of \<open>d\<close>: no name is twice in the stacks, none of them is among the
  names \<open>B\<close> that are borrowed, and together with \<open>B\<close> they are the slots \<open>S\<close>.
\<close>

definition names_of :: "pool_state \<Rightarrow> int \<Rightarrow> string list" where
  "names_of s d = availableNames s d @ cachedDatabase s d"

definition slots_conserved :: "pool_state \<Rightarrow> int \<Rightarrow> string set \<Rightarrow> string set \<Rightarrow> bool" where
  "slots_conserved s d B S =
     (distinct (names_of s d) \<and> set (names_of s d) \<inter> B = {} \<and> set (names_of s d) \<union> B = S)"

text \<open>Every slot in \<open>S\<close> is in the dictionary under its own name, with a valid
  handle, and its name carries the index \<open>d\<close>.\<close>

definition registered :: "pool_state \<Rightarrow> int \<Rightarrow> string set \<Rightarrow> bool" where
  "registered s d S =
     (\<forall>n \<in> S. connectionName (sqlDatabase (TSqlDatabase_database s n)) = n
             \<and> isValid (sqlDatabase (TSqlDatabase_database s n))
             \<and> getDatabaseId (sqlDatabase (TSqlDatabase_database s n)) = d)"

definition pool_inv ::
  "env \<Rightarrow> pool_state \<Rightarrow> (int \<Rightarrow> string set) \<Rightarrow> (int \<Rightarrow> string set) \<Rightarrow> bool" where
  "pool_inv e s B S =
     (\<forall>d \<in> set [0..sqlDatabaseSettingsCount e - 1].
        slots_conserved s d (B d) (S d) \<and> registered s d (S d))"

text \<open>The name \<open>n\<close> is in the dictionary under its own name, with a valid
  handle.\<close>

definition is_registered :: "string \<Rightarrow> pool_state \<Rightarrow> bool" where
  "is_registered n s = (connectionName (sqlDatabase (TSqlDatabase_database s n)) = n
               \<and> isValid (sqlDatabase (TSqlDatabase_database s n)))"

text \<open>The names in the cache of each database are in the dictionary under
  their own name, and carry the index of that database.\<close>

definition cached_registered :: "env \<Rightarrow> pool_state \<Rightarrow> bool" where
  "cached_registered e s =
     (\<forall>d \<in> set [0..sqlDatabaseSettingsCount e - 1].
        \<forall>n \<in> set (cachedDatabase s d).
          connectionName (sqlDatabase (TSqlDatabase_database s n)) = n
          \<and> getDatabaseId (sqlDatabase (TSqlDatabase_database s n)) = d)"

text \<open>The test of the timer event: the last return into the cache of \<open>d\<close> is
  more than 30 seconds before \<open>now\<close>.\<close>

definition stale :: "32 word \<Rightarrow> pool_state \<Rightarrow> int \<Rightarrow> bool" where
  "stale now s d = (lastCachedTime s d < now - 30)"

subsection \<open>A small configuration\<close>

text \<open>One SQLite database and two worker threads, as in the cold start
  scenario, with two statements to run after each open.\<close>

definition settings_example :: db_settings where
  "settings_example =
     \<lparr>DriverType = ''QSQLITE'', DatabaseName = ''test.db'', HostName = [], Port = 0,
      UserName = [], Password = [], ConnectOptions = [],
      PostOpenStatements = ''a ; b'', EnableUpsert = False\<rparr>"

definition env_example :: env where
  "env_example =
     \<lparr>isSqlDatabaseAvailable = True, sqlDatabaseSettingsCount = 1,
      maxNumberOfThreadsPerAppServer = 2,
      sqlDatabaseSettings = (\<lambda>_. settings_example), webRootPath = ''/srv/'',
      addDatabaseValid = (\<lambda>type name. True), driverDbmsType = (\<lambda>type. SQLite),
      driverOpen = (\<lambda>name. True), isRelative = (\<lambda>path. take 1 path \<noteq> ''/''),
      startedTimerId = 1\<rparr>"

definition state_empty :: pool_state where
  "state_empty =
     \<lparr>cachedDatabase = (\<lambda>_. []), lastCachedTime = (\<lambda>_. 0), availableNames = (\<lambda>_. []),
      timer = None, registry = Map.empty, openConnections = {}, executed = []\<rparr>"

definition slot_example :: "string \<Rightarrow> TSqlDatabase" where
  "slot_example name =
     \<lparr>sqlDatabase = \<lparr>connectionName = name, isValid = True\<rparr>, dbmsType = SQLite,
      driverName = ''QSQLITE'', databaseName = ''/srv/test.db'', hostName = [], port = 0,
      userName = [], password = [], connectOptions = [],
      postOpenStatements = [''a '', '' b''], upsertEnabled = False,
      driverExtension = Some ''QSQLITE''\<rparr>"

text \<open>The pool of the small configuration after start-up.\<close>

definition state_example :: pool_state where
  "state_example =
     \<lparr>cachedDatabase = (\<lambda>_. []), lastCachedTime = (\<lambda>_. 0),
      availableNames = (\<lambda>_. [])(0 := [''rdb00_1'', ''rdb00_0'']),
      timer = Some (1, 10000),
      registry = [''rdb00_0'' \<mapsto> slot_example ''rdb00_0'',
                  ''rdb00_1'' \<mapsto> slot_example ''rdb00_1''],
      openConnections = {}, executed = []\<rparr>"

text \<open>The small configuration after both connections have been acquired and
  then returned at time 100, \<open>rdb00_1\<close> first.\<close>

definition state_cached :: pool_state where
  "state_cached =
     state_example
       \<lparr>cachedDatabase := (\<lambda>_. [])(0 := [''rdb00_0'', ''rdb00_1'']),
        lastCachedTime := (\<lambda>_. 0)(0 := 100),
        availableNames := (\<lambda>_. [])(0 := []),
        openConnections := {''rdb00_0'', ''rdb00_1''},
        executed := [(''rdb00_1'', ''a''), (''rdb00_1'', ''b''),
                     (''rdb00_0'', ''a''), (''rdb00_0'', ''b'')]\<rparr>"

text \<open>
  What a returning \<open>database d\<close> has done to the names: the stacks of the other
  databases and the dictionary are as before, no name is twice on the stacks
  of \<open>d\<close>, and either the handle is valid and its name has left the stacks of
  \<open>d\<close>, or the stacks of \<open>d\<close> hold the names they held.
\<close>

definition acquired :: "int \<Rightarrow> pool_state \<Rightarrow> QSqlDatabase \<Rightarrow> pool_state \<Rightarrow> bool" where
  "acquired d s h s' =
     (distinct (names_of s' d) \<and> registry s' = registry s
      \<and> (\<forall>d'. d' \<noteq> d \<longrightarrow>
             availableNames s' d' = availableNames s d' \<and> cachedDatabase s' d' = cachedDatabase s d')
      \<and> (if isValid h
          then connectionName h \<in> set (names_of s d)
               \<and> set (names_of s' d) = set (names_of s d) - {connectionName h}
          else set (names_of s' d) = set (names_of s d)))"

text \<open>The small configuration with a blank \<open>DatabaseName\<close>.\<close>

definition env_blank_name :: env where
  "env_blank_name =
     env_example\<lparr>sqlDatabaseSettings := (\<lambda>_. settings_example\<lparr>DatabaseName := ''  ''\<rparr>)\<rparr>"


declare database_loop.simps [code]

section \<open>Properties\<close>

subsection \<open>Digits\<close>

lemma isDigit_digit_char: "n < 10 \<Longrightarrow> isDigit (digit_char n)"
  by (simp add: isDigit_def digit_char_def)

lemma digit_val_digit_char: "n < 10 \<Longrightarrow> digit_val (digit_char n) = n"
  by (simp add: digit_val_def digit_char_def)

lemma not_isSpace_digit: "isDigit c \<Longrightarrow> \<not> isSpace c"
  by (auto simp: isDigit_def isSpace_def Let_def)

lemma parse_digits_append:
  "parse_digits a (xs @ ys) =
     (case parse_digits a xs of None \<Rightarrow> None | Some v \<Rightarrow> parse_digits v ys)"
  by (induction xs arbitrary: a) auto

lemma parse_digits_digits_nat: "parse_digits 0 (digits_nat n) = Some n"
proof (induction n rule: digits_nat.induct)
  case (1 n)
  show ?case
  proof (cases "n < 10")
    case True
    then show ?thesis
      by (subst digits_nat.simps) (simp add: isDigit_digit_char digit_val_digit_char)
  next
    case False
    with 1 have "parse_digits 0 (digits_nat (n div 10)) = Some (n div 10)"
      by simp
    with False show ?thesis
      by (subst digits_nat.simps)
         (simp add: parse_digits_append isDigit_digit_char digit_val_digit_char)
  qed
qed

lemma digits_nat_all_digits: "list_all isDigit (digits_nat n)"
proof (induction n rule: digits_nat.induct)
  case (1 n)
  then show ?case
    by (subst digits_nat.simps) (simp add: isDigit_digit_char)
qed

lemma digits_nat_not_Nil: "digits_nat n \<noteq> []"
  by (subst digits_nat.simps) simp

lemma digits_nat_one: "n < 10 \<Longrightarrow> digits_nat n = [digit_char n]"
  by (subst digits_nat.simps) simp

lemma digits_nat_two:
  assumes "10 \<le> n" and "n < 100"
  shows "digits_nat n = [digit_char (n div 10), digit_char (n mod 10)]"
proof -
  from assms have "n div 10 < 10" by simp
  then have "digits_nat (n div 10) = [digit_char (n div 10)]"
    by (rule digits_nat_one)
  with assms show ?thesis
    by (subst digits_nat.simps) simp
qed

lemma trimmed_digits:
  assumes "list_all isDigit s"
  shows "trimmed s = s"
proof (cases s)
  case Nil
  then show ?thesis by (simp add: trimmed_def)
next
  case (Cons c cs)
  with assms have hd: "\<not> isSpace (hd s)" and "s \<noteq> []"
    by (auto simp: not_isSpace_digit)
  then have a: "dropWhile isSpace s = s"
    by (cases s) auto
  from assms \<open>s \<noteq> []\<close> have "\<not> isSpace (last s)"
    by (metis last_in_set list_all_iff not_isSpace_digit)
  with \<open>s \<noteq> []\<close> have "\<not> isSpace (hd (rev s))" and "rev s \<noteq> []"
    by (simp_all add: hd_rev)
  then have "dropWhile isSpace (rev s) = rev s"
    by (cases "rev s") auto
  with a show ?thesis
    by (simp add: trimmed_def)
qed

lemma isDigit_not_sign: "isDigit c \<Longrightarrow> c \<noteq> CHR ''-'' \<and> c \<noteq> CHR ''+''"
  by (auto simp: isDigit_def)

lemma digit_char_not_sign:
  "n < 10 \<Longrightarrow> digit_char n \<noteq> CHR ''-'' \<and> digit_char n \<noteq> CHR ''+''"
  using isDigit_not_sign [OF isDigit_digit_char] by blast

lemma digit_char_0: "digit_char 0 = CHR ''0''"
  by (simp add: digit_char_def char_of_eq_iff)

subsection \<open>Connection names\<close>

lemma fmt_02d_two:
  assumes "0 \<le> d" and "d < 100"
  shows "fmt_02d d = [digit_char (nat d div 10), digit_char (nat d mod 10)]"
proof (cases "d < 10")
  case True
  with assms have "nat d < 10" by simp
  with True assms show ?thesis
    by (simp add: fmt_02d_def fmt_d_def digits_nat_one digit_char_0)
next
  case False
  with assms have "10 \<le> nat d" "nat d < 100" by simp_all
  then have "digits_nat (nat d) = [digit_char (nat d div 10), digit_char (nat d mod 10)]"
    by (rule digits_nat_two)
  with False assms show ?thesis
    by (simp add: fmt_02d_def fmt_d_def)
qed

lemma toInt_two_digits:
  assumes "a < 10" and "b < 10"
  shows "toInt [digit_char a, digit_char b] = (int (10 * a + b), True)"
proof -
  let ?s = "[digit_char a, digit_char b]"
  from assms have "list_all isDigit ?s"
    by (simp add: isDigit_digit_char)
  then have t: "trimmed ?s = ?s"
    by (rule trimmed_digits)
  from assms have p: "parse_digits 0 ?s = Some (10 * a + b)"
    by (simp add: isDigit_digit_char digit_val_digit_char)
  from assms show ?thesis
    unfolding toInt_def t
    using digit_char_not_sign [of a] p
    by (simp add: Let_def)
qed

lemma getDatabaseId_conn_name:
  assumes "0 \<le> d" and "d < 100"
  shows "getDatabaseId \<lparr>connectionName = conn_name d i, isValid = v\<rparr> = d"
  using assms toInt_two_digits [of "nat d div 10" "nat d mod 10"]
  by (simp add: getDatabaseId_def conn_name_def fmt_02d_two mid_def)

lemma conn_name_grammar_conn_name:
  assumes "0 \<le> d" and "d < 100" and "0 \<le> i"
  shows "conn_name_grammar (conn_name d i)"
proof -
  from digits_nat_not_Nil [of "nat i"] have "1 \<le> length (digits_nat (nat i))"
    by (cases "digits_nat (nat i)") auto
  with assms show ?thesis
    by (simp add: conn_name_grammar_def conn_name_def fmt_02d_two fmt_d_def
        isDigit_digit_char digits_nat_all_digits)
qed

text \<open>The bound on \<open>d\<close> is needed: the name of slot 0 of database 100 is
  \<open>rdb100_0\<close>, and the two characters read back give 10.\<close>

lemma getDatabaseId_three_digits:
  "conn_name 100 0 = ''rdb100_0''
   \<and> getDatabaseId \<lparr>connectionName = conn_name 100 0, isValid = True\<rparr> = 10"
  by code_simp

subsection \<open>Acquire: the two guards\<close>

text \<open>
  C3. With the database subsystem available, \<open>database\<close> called with an index
  outside \<open>[0, sqlDatabaseSettingsCount)\<close> throws the runtime exception
  "No pooled connection"; it returns no handle and leaves the state as it was.
\<close>

theorem database_out_of_range:
  assumes "isSqlDatabaseAvailable e"
    and "\<not> (0 \<le> d \<and> d < sqlDatabaseSettingsCount e)"
  shows "database e d s = Some (Inl (RuntimeException ''No pooled connection''), s)"
  using assms by (auto simp: database_def)

theorem database_out_of_range_witness:
  "isSqlDatabaseAvailable env_example
   \<and> \<not> (0 \<le> (1::int) \<and> 1 < sqlDatabaseSettingsCount env_example)
   \<and> database env_example 1 state_example
       = Some (Inl (RuntimeException ''No pooled connection''), state_example)"
  using database_out_of_range [of env_example 1 state_example]
  by (simp add: env_example_def)

text \<open>
  C4, as the specification has it: with the database subsystem not available,
  \<open>database\<close> fails with the "No pooled connection" error. It does not: in the
  small configuration with the subsystem switched off, the call for database
  0 returns the default constructed handle and throws nothing.
\<close>

theorem database_unavailable_counterexample:
  "\<not> isSqlDatabaseAvailable (env_example\<lparr>isSqlDatabaseAvailable := False\<rparr>)
   \<and> database (env_example\<lparr>isSqlDatabaseAvailable := False\<rparr>) 0 state_example
       = Some (Inr QSqlDatabase_default, state_example)
   \<and> \<not> isl (fst (the (database (env_example\<lparr>isSqlDatabaseAvailable := False\<rparr>) 0 state_example)))"
  by (simp add: database_def TSqlDatabase_default_def)

text \<open>
  C4, amended: with the database subsystem not available, \<open>database\<close> returns
  the default constructed (invalid) handle for every index, in range or not,
  throws nothing and leaves the state as it was.
\<close>

theorem database_unavailable:
  assumes "\<not> isSqlDatabaseAvailable e"
  shows "database e d s = Some (Inr QSqlDatabase_default, s)"
  using assms by (simp add: database_def TSqlDatabase_default_def)

theorem database_unavailable_witness:
  "\<not> isSqlDatabaseAvailable (env_example\<lparr>isSqlDatabaseAvailable := False\<rparr>)
   \<and> database (env_example\<lparr>isSqlDatabaseAvailable := False\<rparr>) 7 state_example
       = Some (Inr QSqlDatabase_default, state_example)"
  using database_unavailable [of "env_example\<lparr>isSqlDatabaseAvailable := False\<rparr>" 7 state_example]
  by simp

subsection \<open>Acquire: the driver refuses to open\<close>

lemma push_pop_same: "f d = name # rest \<Longrightarrow> push name d (f(d := rest)) = f"
  by (auto simp: push_def)

text \<open>
  C5. The slow path: the cache of \<open>d\<close> is empty and \<open>name\<close> is on top of
  \<open>availableNames d\<close>, its connection is not open, and the driver's \<open>open\<close>
  fails. Then \<open>database\<close> throws nothing and returns the default constructed
  handle, which is invalid; and the state after the call is the state before
  it: \<open>name\<close> is on top of \<open>availableNames d\<close> again, and the list of executed
  statements has not grown.
\<close>

theorem database_open_failure:
  assumes "isSqlDatabaseAvailable e"
    and "0 \<le> d" and "d < sqlDatabaseSettingsCount e"
    and "cachedDatabase s d = []"
    and "availableNames s d = name # rest"
    and "\<not> isOpen s (sqlDatabase (TSqlDatabase_database s name))"
    and "\<not> fst (open_db e s (sqlDatabase (TSqlDatabase_database s name)))"
  shows "database e d s = Some (Inr QSqlDatabase_default, s)
         \<and> \<not> isValid QSqlDatabase_default"
proof -
  from assms have "database_loop e d s = Some (QSqlDatabase_default, s)"
    by (subst database_loop.simps) (simp add: pop_def push_pop_same)
  with assms show ?thesis
    by (simp add: database_def QSqlDatabase_default_def)
qed

theorem database_open_failure_witness:
  "isSqlDatabaseAvailable (env_example\<lparr>driverOpen := (\<lambda>name. False)\<rparr>)
   \<and> cachedDatabase state_example 0 = []
   \<and> availableNames state_example 0 = [''rdb00_1'', ''rdb00_0'']
   \<and> \<not> isOpen state_example (sqlDatabase (TSqlDatabase_database state_example ''rdb00_1''))
   \<and> \<not> fst (open_db (env_example\<lparr>driverOpen := (\<lambda>name. False)\<rparr>) state_example
               (sqlDatabase (TSqlDatabase_database state_example ''rdb00_1'')))
   \<and> database (env_example\<lparr>driverOpen := (\<lambda>name. False)\<rparr>) 0 state_example
       = Some (Inr QSqlDatabase_default, state_example)"
  using database_open_failure [of "env_example\<lparr>driverOpen := (\<lambda>name. False)\<rparr>" 0
          state_example "''rdb00_1''" "[''rdb00_0'']"]
  by (simp add: env_example_def state_example_def isOpen_def open_db_def)

subsection \<open>Release: the handle of the caller\<close>

lemma getDatabaseId_unparsable:
  "getDatabaseId \<lparr>connectionName = ''rdbxx_0'', isValid = True\<rparr> = - 1"
  by code_simp

text \<open>
  C9. \<open>pool\<close> throws nothing and always leaves the default constructed handle
  in the caller's variable, whether the handle was pooled, force-closed,
  invalid, or had a name whose identifier does not parse or is out of range;
  and in the last two cases (invalid handle, identifier not in range) the
  state after the call is the state before it.
\<close>

theorem pool_invalidates_handle:
  "(\<exists>s'. pool e now s h forceClose = Inr (QSqlDatabase_default, s'))
   \<and> (\<not> isValid h \<or> \<not> (0 \<le> getDatabaseId h \<and> getDatabaseId h < sqlDatabaseSettingsCount e)
        \<longrightarrow> pool e now s h forceClose = Inr (QSqlDatabase_default, s))"
  by (simp add: pool_def closeDatabase_def Let_def)

theorem pool_invalidates_handle_witness:
  "\<not> (0 \<le> getDatabaseId \<lparr>connectionName = ''rdbxx_0'', isValid = True\<rparr>
        \<and> getDatabaseId \<lparr>connectionName = ''rdbxx_0'', isValid = True\<rparr>
            < sqlDatabaseSettingsCount env_example)
   \<and> pool env_example 100 state_example \<lparr>connectionName = ''rdbxx_0'', isValid = True\<rparr> True
       = Inr (QSqlDatabase_default, state_example)
   \<and> \<not> isValid QSqlDatabase_default
   \<and> pool env_example 100 state_example QSqlDatabase_default False
       = Inr (QSqlDatabase_default, state_example)"
  using pool_invalidates_handle [of env_example 100 state_example
          "\<lparr>connectionName = ''rdbxx_0'', isValid = True\<rparr>" True]
    pool_invalidates_handle [of env_example 100 state_example QSqlDatabase_default False]
    getDatabaseId_unparsable
  by (simp add: QSqlDatabase_default_def)

subsection \<open>Start-up and the settings of a slot\<close>

lemma setDatabaseSettings_sqlDatabase:
  "sqlDatabase (snd (setDatabaseSettings e db j)) = sqlDatabase db"
  by (simp add: setDatabaseSettings_def Let_def)

lemma setDatabaseSettings_fails_iff:
  "fst (setDatabaseSettings e db d) = False
     \<longleftrightarrow> trimmed (DatabaseName (sqlDatabaseSettings e d)) = []"
  by (simp add: setDatabaseSettings_def Let_def)

lemma setDatabaseSettings_statements:
  "trimmed (DatabaseName (sqlDatabaseSettings e d)) \<noteq> [] \<Longrightarrow>
   postOpenStatements (snd (setDatabaseSettings e db d)) =
     (let stmts = split_skip_empty CHR '';'' (trimmed (PostOpenStatements (sqlDatabaseSettings e d)))
      in if stmts \<noteq> [] then stmts else postOpenStatements db)"
  by (simp add: setDatabaseSettings_def Let_def)

lemma init_slots_availableNames:
  "availableNames (init_slots e t j is s) =
     (availableNames s)
       (j := rev (map (conn_name j) (takeWhile (\<lambda>i. addDatabaseValid e t (conn_name j i)) is))
             @ availableNames s j)"
proof (induction "is" arbitrary: s)
  case Nil
  then show ?case by simp
next
  case (Cons i "is")
  show ?case
  proof (cases "addDatabaseValid e t (conn_name j i)")
    case False
    then show ?thesis
      by (simp add: addDatabase_def Let_def)
  next
    case True
    then show ?thesis
      by (auto simp: addDatabase_def Let_def Cons.IH split_beta setDatabaseSettings_sqlDatabase
          push_def fun_eq_iff)
  qed
qed

lemma init_slots_other:
  "cachedDatabase (init_slots e t j is s) = cachedDatabase s
   \<and> timer (init_slots e t j is s) = timer s
   \<and> lastCachedTime (init_slots e t j is s) = lastCachedTime s
   \<and> openConnections (init_slots e t j is s) = openConnections s
   \<and> executed (init_slots e t j is s) = executed s"
  by (induction "is" arbitrary: s) (simp_all add: addDatabase_def split_beta Let_def)

lemma init_databases_availableNames:
  "distinct js \<Longrightarrow>
   availableNames (snd (init_databases e js aval s)) d =
     (if d \<in> set js \<and> driverType e d \<noteq> []
      then rev (map (conn_name d)
                 (takeWhile (\<lambda>i. addDatabaseValid e (driverType e d) (conn_name d i))
                    [0..maxNumberOfThreadsPerAppServer e - 1]))
           @ availableNames s d
      else availableNames s d)"
proof (induction js arbitrary: aval s)
  case Nil
  then show ?case by simp
next
  case (Cons j js)
  then show ?case
    by (auto simp: Let_def init_slots_availableNames)
qed

lemma init_databases_aval:
  "fst (init_databases e js aval s) = (aval \<or> (\<exists>j \<in> set js. driverType e j \<noteq> []))"
  by (induction js arbitrary: aval s) (auto simp: Let_def)

lemma init_databases_other:
  "cachedDatabase (snd (init_databases e js aval s)) = cachedDatabase s
   \<and> timer (snd (init_databases e js aval s)) = timer s"
  by (induction js arbitrary: aval s) (simp_all add: Let_def init_slots_other)

lemma in_set_upto: "0 \<le> d \<Longrightarrow> d < n \<Longrightarrow> d \<in> set [0..n - 1]"
  by simp

lemma init_availableNames:
  assumes "isSqlDatabaseAvailable e"
    and "0 \<le> d" and "d < sqlDatabaseSettingsCount e"
    and "driverType e d \<noteq> []"
  shows "availableNames (init e s) d =
           rev (map (conn_name d)
                 (takeWhile (\<lambda>i. addDatabaseValid e (driverType e d) (conn_name d i))
                    [0..maxNumberOfThreadsPerAppServer e - 1]))"
    and "cachedDatabase (init e s) d = []"
    and "timer (init e s) = Some (startedTimerId e, 10000)"
proof -
  let ?s0 = "s\<lparr>cachedDatabase := (\<lambda>_. []), availableNames := (\<lambda>_. [])\<rparr>"
  let ?r = "init_databases e [0..sqlDatabaseSettingsCount e - 1] False ?s0"
  from assms have mem: "d \<in> set [0..sqlDatabaseSettingsCount e - 1]"
    by simp
  with assms have aval: "fst ?r"
    by (auto simp: init_databases_aval)
  from assms have i: "init e s = (snd ?r)\<lparr>timer := Some (startedTimerId e, 10000)\<rparr>"
    using aval by (simp add: init_def split_beta)
  show "availableNames (init e s) d =
           rev (map (conn_name d)
                 (takeWhile (\<lambda>i. addDatabaseValid e (driverType e d) (conn_name d i))
                    [0..maxNumberOfThreadsPerAppServer e - 1]))"
    using mem assms by (simp add: i init_databases_availableNames)
  show "cachedDatabase (init e s) d = []"
    by (simp add: i init_databases_other)
  show "timer (init e s) = Some (startedTimerId e, 10000)"
    by (simp add: i)
qed

lemma takeWhile_upto_all:
  assumes "\<forall>k \<in> set [a..b]. P k"
  shows "takeWhile P [a..b] = [a..b]"
  using assms by (simp add: takeWhile_eq_all_conv)


lemma conn_name_examples:
  "conn_name 0 0 = ''rdb00_0''" "conn_name 0 1 = ''rdb00_1''"
  by code_simp+

lemma digits_nat_inj: "digits_nat a = digits_nat b \<Longrightarrow> a = b"
  by (metis option.inject parse_digits_digits_nat)

lemma hd_digits_nat: "hd (digits_nat n) \<noteq> CHR ''-''"
proof -
  have "isDigit (hd (digits_nat n))"
    using digits_nat_all_digits [of n] digits_nat_not_Nil [of n]
    by (cases "digits_nat n") auto
  then show ?thesis
    using isDigit_not_sign by blast
qed

lemma fmt_d_inj: "fmt_d i = fmt_d k \<Longrightarrow> i = k"
proof -
  assume eq: "fmt_d i = fmt_d k"
  have neg: False if "a < 0" "\<not> b < 0" "fmt_d a = fmt_d b" for a b
  proof -
    from that have "hd (digits_nat (nat b)) = CHR ''-''"
      by (simp add: fmt_d_def) (metis list.sel(1))
    with hd_digits_nat show False by blast
  qed
  show ?thesis
  proof (cases "i < 0"; cases "k < 0")
    assume "i < 0" "k < 0"
    with eq have "nat (- i) = nat (- k)"
      by (simp add: fmt_d_def digits_nat_inj)
    with \<open>i < 0\<close> \<open>k < 0\<close> show ?thesis by simp
  next
    assume "i < 0" "\<not> k < 0"
    with eq neg show ?thesis by blast
  next
    assume "\<not> i < 0" "k < 0"
    with eq neg [of k i] show ?thesis by simp
  next
    assume "\<not> i < 0" "\<not> k < 0"
    with eq have "nat i = nat k"
      by (simp add: fmt_d_def digits_nat_inj)
    with \<open>\<not> i < 0\<close> \<open>\<not> k < 0\<close> show ?thesis by simp
  qed
qed

lemma conn_name_inj_slot: "conn_name d i = conn_name d k \<Longrightarrow> i = k"
  by (simp add: conn_name_def fmt_d_inj)

lemma fmt_d_no_sep: "CHR ''_'' \<notin> set (fmt_d i)"
proof -
  have "c \<noteq> CHR ''_''" if "c \<in> set (digits_nat n)" for c n
  proof -
    from that digits_nat_all_digits [of n] have "isDigit c"
      by (simp add: list_all_iff)
    then show ?thesis
      by (auto simp: isDigit_def)
  qed
  then show ?thesis
    by (auto simp: fmt_d_def)
qed

lemma fmt_02d_no_sep: "CHR ''_'' \<notin> set (fmt_02d j)"
  using fmt_d_no_sep [of j] by (simp add: fmt_02d_def)

lemma parse_digits_leading_zero: "parse_digits 0 (CHR ''0'' # ds) = parse_digits 0 ds"
  by (simp add: isDigit_def digit_val_def)

lemma fmt_02d_inj: "fmt_02d a = fmt_02d b \<Longrightarrow> a = b"
proof -
  assume eq: "fmt_02d a = fmt_02d b"
  have pad: False if "0 \<le> x" "x < 10" "\<not> (0 \<le> y \<and> y < 10)" "fmt_02d x = fmt_02d y" for x y
  proof (cases "y < 0")
    case True
    with that show False
      by (simp add: fmt_02d_def fmt_d_def)
  next
    case False
    with that have "CHR ''0'' # digits_nat (nat x) = digits_nat (nat y)"
      by (simp add: fmt_02d_def fmt_d_def)
    then have "parse_digits 0 (CHR ''0'' # digits_nat (nat x)) = parse_digits 0 (digits_nat (nat y))"
      by simp
    then have "nat x = nat y"
      by (simp only: parse_digits_leading_zero parse_digits_digits_nat option.inject)
    with that False show False
      by simp
  qed
  show ?thesis
  proof (cases "0 \<le> a \<and> a < 10"; cases "0 \<le> b \<and> b < 10")
    assume "0 \<le> a \<and> a < 10" "0 \<le> b \<and> b < 10"
    with eq show ?thesis
      by (simp add: fmt_02d_def fmt_d_inj)
  next
    assume "0 \<le> a \<and> a < 10" "\<not> (0 \<le> b \<and> b < 10)"
    with eq pad [of a b] show ?thesis by blast
  next
    assume "\<not> (0 \<le> a \<and> a < 10)" "0 \<le> b \<and> b < 10"
    with eq pad [of b a] show ?thesis by simp
  next
    assume "\<not> (0 \<le> a \<and> a < 10)" "\<not> (0 \<le> b \<and> b < 10)"
    with eq show ?thesis
      by (simp add: fmt_02d_def fmt_d_inj)
  qed
qed

lemma split_at_sep:
  assumes "c \<notin> set xs" and "c \<notin> set xs'" and "xs @ c # ys = xs' @ c # ys'"
  shows "xs = xs' \<and> ys = ys'"
proof -
  from assms(1) have "takeWhile (\<lambda>x. x \<noteq> c) (xs @ c # ys) = xs"
    by (auto simp: takeWhile_tail takeWhile_eq_all_conv)
  moreover from assms(2) have "takeWhile (\<lambda>x. x \<noteq> c) (xs' @ c # ys') = xs'"
    by (auto simp: takeWhile_tail takeWhile_eq_all_conv)
  ultimately have "xs = xs'"
    using assms(3) by simp
  with assms(3) show ?thesis
    by simp
qed

lemma conn_name_inj: "conn_name j i = conn_name j' i' \<Longrightarrow> j = j' \<and> i = i'"
proof -
  assume "conn_name j i = conn_name j' i'"
  then have "fmt_02d j @ CHR ''_'' # fmt_d i = fmt_02d j' @ CHR ''_'' # fmt_d i'"
    by (simp add: conn_name_def)
  with fmt_02d_no_sep [of j] fmt_02d_no_sep [of j']
  have "fmt_02d j = fmt_02d j' \<and> fmt_d i = fmt_d i'"
    by (rule split_at_sep)
  then show ?thesis
    by (simp add: fmt_02d_inj fmt_d_inj)
qed

lemma init_slots_registry_other:
  "n \<notin> conn_name j ` set is \<Longrightarrow> registry (init_slots e t j is s) n = registry s n"
proof (induction "is" arbitrary: s)
  case Nil
  then show ?case by simp
next
  case (Cons i "is")
  then show ?case
    by (simp add: addDatabase_def Let_def split_beta)
qed

lemma init_slots_break:
  assumes "\<forall>x \<in> set xs. addDatabaseValid e t (conn_name j x)"
    and "\<not> addDatabaseValid e t (conn_name j i)"
  shows "init_slots e t j (xs @ i # ys) s = init_slots e t j (xs @ [i]) s"
  using assms by (induction xs arbitrary: s) (simp_all add: addDatabase_def Let_def split_beta)

lemma init_databases_registry_other:
  assumes "\<And>j s'. j \<in> set js \<Longrightarrow> driverType e j \<noteq> [] \<Longrightarrow>
             registry (init_slots e (driverType e j) j [0..maxNumberOfThreadsPerAppServer e - 1] s') n
               = registry s' n"
  shows "registry (snd (init_databases e js aval s)) n = registry s n"
  using assms by (induction js arbitrary: aval s) (simp_all add: Let_def)

lemma init_registry_unprocessed:
  assumes "isSqlDatabaseAvailable e"
    and "0 \<le> i" and "i < maxNumberOfThreadsPerAppServer e"
    and "driverType e d \<noteq> []"
    and "\<forall>x \<in> set [0..i - 1]. addDatabaseValid e (driverType e d) (conn_name d x)"
    and "\<not> addDatabaseValid e (driverType e d) (conn_name d i)"
    and "i < k"
  shows "registry (init e s) (conn_name d k) = registry s (conn_name d k)"
proof -
  let ?M = "maxNumberOfThreadsPerAppServer e"
  let ?n = "conn_name d k"
  have slots: "registry (init_slots e (driverType e j) j [0..?M - 1] s') ?n = registry s' ?n"
    for j s'
  proof (cases "j = d")
    case False
    then have "?n \<notin> conn_name j ` set [0..?M - 1]"
      by (auto dest: conn_name_inj)
    then show ?thesis
      by (rule init_slots_registry_other)
  next
    case True
    from assms(2,3) have split: "[0..?M - 1] = [0..i - 1] @ i # [i + 1..?M - 1]"
      by (simp add: upto_split3)
    have "init_slots e (driverType e d) d [0..?M - 1] s'
            = init_slots e (driverType e d) d ([0..i - 1] @ i # [i + 1..?M - 1]) s'"
      by (rule arg_cong [where f = "\<lambda>xs. init_slots e (driverType e d) d xs s'", OF split])
    also from assms(5,6) have "\<dots> = init_slots e (driverType e d) d ([0..i - 1] @ [i]) s'"
      by (rule init_slots_break)
    finally have eq: "init_slots e (driverType e d) d [0..?M - 1] s'
                    = init_slots e (driverType e d) d ([0..i - 1] @ [i]) s'" .
    from assms(7) have "?n \<notin> conn_name d ` set ([0..i - 1] @ [i])"
      by (auto dest: conn_name_inj_slot)
    then have "registry (init_slots e (driverType e d) d ([0..i - 1] @ [i]) s') ?n
                 = registry s' ?n"
      by (rule init_slots_registry_other)
    with eq True show ?thesis
      by simp
  qed
  have "registry (snd (init_databases e js False s0)) ?n = registry s0 ?n" for js s0
    by (rule init_databases_registry_other) (rule slots)
  then show ?thesis
    using assms(1) by (simp add: init_def split_beta Let_def)
qed

lemma upto_0_0: "[0..0] = [0::int]"
  by code_simp

lemma fst_addDatabase: "fst (addDatabase e s t n) = fst (addDatabase e s' t n)"
  by (simp add: addDatabase_def Let_def)

lemma first_dropWhile: "x \<in> set (take 1 (dropWhile P xs)) \<Longrightarrow> \<not> P x"
  by (induction xs) (auto split: if_splits)

lemma init_slots_registry:
  "registry (init_slots e t j is s) (conn_name j k) =
     (if k \<in> set (takeWhile (\<lambda>i. addDatabaseValid e t (conn_name j i)) is)
      then Some (snd (setDatabaseSettings e (fst (addDatabase e s0 t (conn_name j k))) j))
      else if k \<in> set (take 1 (dropWhile (\<lambda>i. addDatabaseValid e t (conn_name j i)) is))
      then Some (fst (addDatabase e s0 t (conn_name j k)))
      else registry s (conn_name j k))"
proof (induction "is" arbitrary: s)
  case Nil
  then show ?case by simp
next
  case (Cons i "is")
  have ne: "conn_name j k \<noteq> conn_name j i" if "k \<noteq> i"
    using that conn_name_inj_slot by blast
  show ?case
  proof (cases "addDatabaseValid e t (conn_name j i)")
    case False
    then have "init_slots e t j (i # is) s
                 = s\<lparr>registry := (registry s)(conn_name j i \<mapsto> fst (addDatabase e s0 t (conn_name j i)))\<rparr>"
      by (simp add: addDatabase_def Let_def)
    with False ne show ?thesis
      by auto
  next
    case True
    let ?db' = "snd (setDatabaseSettings e (fst (addDatabase e s0 t (conn_name j i))) j)"
    let ?s3 = "s\<lparr>registry := (registry s)(conn_name j i \<mapsto> ?db'),
                 availableNames := push (conn_name j i) j (availableNames s)\<rparr>"
    from True have step: "init_slots e t j (i # is) s = init_slots e t j is ?s3"
      by (simp add: addDatabase_def Let_def split_beta setDatabaseSettings_sqlDatabase)
    from True have nv: "i \<notin> set (take 1 (dropWhile (\<lambda>i. addDatabaseValid e t (conn_name j i)) is))"
      using first_dropWhile [of i "\<lambda>i. addDatabaseValid e t (conn_name j i)" "is"] by blast
    show ?thesis
      unfolding step Cons.IH using True ne nv by auto
  qed
qed

lemma init_databases_registry:
  assumes "distinct js"
  shows "registry (snd (init_databases e js aval s)) (conn_name d k) =
     (if d \<in> set js \<and> driverType e d \<noteq> []
      then registry (init_slots e (driverType e d) d [0..maxNumberOfThreadsPerAppServer e - 1] s)
             (conn_name d k)
      else registry s (conn_name d k))"
  using assms
proof (induction js arbitrary: aval s)
  case Nil
  then show ?case by simp
next
  case (Cons j js)
  let ?M = "maxNumberOfThreadsPerAppServer e"
  show ?case
  proof (cases "j = d")
    case True
    with Cons.prems have "d \<notin> set js" by simp
    with Cons.prems True show ?thesis
      by (simp add: Let_def Cons.IH)
  next
    case False
    then have other: "registry (init_slots e t j [0..?M - 1] s') (conn_name d k')
                        = registry s' (conn_name d k')" for t s' k'
      by (intro init_slots_registry_other) (auto dest: conn_name_inj)
    have eq: "registry (init_slots e t' d xs (init_slots e t j [0..?M - 1] s)) (conn_name d k)
            = registry (init_slots e t' d xs s) (conn_name d k)" for t t' xs
      by (simp add: init_slots_registry [where ?s0.0 = s] other)
    from Cons.prems False show ?thesis
      by (simp add: Let_def Cons.IH other eq)
  qed
qed

lemma init_registry:
  assumes "isSqlDatabaseAvailable e"
    and "0 \<le> d" and "d < sqlDatabaseSettingsCount e"
    and "driverType e d \<noteq> []"
  shows "registry (init e s) (conn_name d k) =
     (if k \<in> set (takeWhile (\<lambda>i. addDatabaseValid e (driverType e d) (conn_name d i))
                     [0..maxNumberOfThreadsPerAppServer e - 1])
      then Some (snd (setDatabaseSettings e
                        (fst (addDatabase e s (driverType e d) (conn_name d k))) d))
      else if k \<in> set (take 1 (dropWhile (\<lambda>i. addDatabaseValid e (driverType e d) (conn_name d i))
                                  [0..maxNumberOfThreadsPerAppServer e - 1]))
      then Some (fst (addDatabase e s (driverType e d) (conn_name d k)))
      else registry s (conn_name d k))"
proof -
  let ?s0 = "s\<lparr>cachedDatabase := (\<lambda>_. []), availableNames := (\<lambda>_. [])\<rparr>"
  from assms have "registry (init e s) (conn_name d k)
      = registry (snd (init_databases e [0..sqlDatabaseSettingsCount e - 1] False ?s0)) (conn_name d k)"
    by (simp add: init_def split_beta Let_def)
  also from assms have "\<dots> = registry (init_slots e (driverType e d) d
                                  [0..maxNumberOfThreadsPerAppServer e - 1] ?s0) (conn_name d k)"
    by (simp add: init_databases_registry)
  finally show ?thesis
    by (simp add: init_slots_registry [where ?s0.0 = s])
qed





text \<open>
  C2, as the specification has it: a slot whose \<open>DatabaseName\<close> is empty after
  trimming is skipped at registration, its name is not pushed and the pool
  cannot use it. It is not so: with a blank \<open>DatabaseName\<close> in the small
  configuration, \<open>setDatabaseSettings\<close> returns false, and yet both names are
  on \<open>availableNames 0\<close> after \<open>init\<close>, and the next \<open>database 0\<close> returns the
  connection on top.
\<close>

theorem setDatabaseSettings_skip_counterexample:
  "trimmed (DatabaseName (sqlDatabaseSettings env_blank_name 0)) = []
   \<and> fst (setDatabaseSettings env_blank_name
            (fst (addDatabase env_blank_name state_empty ''QSQLITE'' ''rdb00_1'')) 0) = False
   \<and> availableNames (init env_blank_name state_empty) 0 = [''rdb00_1'', ''rdb00_0'']
   \<and> fst (the (database env_blank_name 0 (init env_blank_name state_empty)))
       = Inr \<lparr>connectionName = ''rdb00_1'', isValid = True\<rparr>"
  by code_simp

text \<open>
  C2, amended. \<open>setDatabaseSettings\<close> returns false exactly when \<open>DatabaseName\<close>
  is empty after trimming, and then leaves the connection as it was. \<open>init\<close>
  does not look at that result: whatever \<open>DatabaseName\<close> is, for a database in
  range with a driver type that is not empty and valid connections for all its
  slots, the names of all the slots \<open>0, \<dots>, maxConnects - 1\<close> are pushed onto
  \<open>availableNames d\<close>.
\<close>

theorem setDatabaseSettings_failure:
  "(fst (setDatabaseSettings e db d) = False
      \<longleftrightarrow> trimmed (DatabaseName (sqlDatabaseSettings e d)) = [])
   \<and> (trimmed (DatabaseName (sqlDatabaseSettings e d)) = []
        \<longrightarrow> snd (setDatabaseSettings e db d) = db)
   \<and> (isSqlDatabaseAvailable e \<and> 0 \<le> d \<and> d < sqlDatabaseSettingsCount e
        \<and> driverType e d \<noteq> []
        \<and> (\<forall>k \<in> set [0..maxNumberOfThreadsPerAppServer e - 1].
              addDatabaseValid e (driverType e d) (conn_name d k))
        \<longrightarrow> availableNames (init e s) d
              = rev (map (conn_name d) [0..maxNumberOfThreadsPerAppServer e - 1]))"
proof (intro conjI impI)
  show "fst (setDatabaseSettings e db d) = False
      \<longleftrightarrow> trimmed (DatabaseName (sqlDatabaseSettings e d)) = []"
    by (rule setDatabaseSettings_fails_iff)
  show "snd (setDatabaseSettings e db d) = db"
    if "trimmed (DatabaseName (sqlDatabaseSettings e d)) = []"
    using that by (simp add: setDatabaseSettings_def)
  show "availableNames (init e s) d
              = rev (map (conn_name d) [0..maxNumberOfThreadsPerAppServer e - 1])"
    if "isSqlDatabaseAvailable e \<and> 0 \<le> d \<and> d < sqlDatabaseSettingsCount e
        \<and> driverType e d \<noteq> []
        \<and> (\<forall>k \<in> set [0..maxNumberOfThreadsPerAppServer e - 1].
              addDatabaseValid e (driverType e d) (conn_name d k))"
    using that by (simp add: init_availableNames(1) takeWhile_upto_all)
qed

lemma upto_0_1: "[0..1] = [0, 1::int]"
  by code_simp

theorem setDatabaseSettings_failure_witness:
  "trimmed (DatabaseName (sqlDatabaseSettings env_blank_name 0)) = []
   \<and> fst (setDatabaseSettings env_blank_name TSqlDatabase_default 0) = False
   \<and> snd (setDatabaseSettings env_blank_name TSqlDatabase_default 0) = TSqlDatabase_default
   \<and> isSqlDatabaseAvailable env_blank_name \<and> (0::int) < sqlDatabaseSettingsCount env_blank_name
   \<and> driverType env_blank_name 0 \<noteq> []
   \<and> [0..maxNumberOfThreadsPerAppServer env_blank_name - 1] = [0, 1]
   \<and> addDatabaseValid env_blank_name (driverType env_blank_name 0) (conn_name 0 0)
   \<and> addDatabaseValid env_blank_name (driverType env_blank_name 0) (conn_name 0 1)
   \<and> availableNames (init env_blank_name state_empty) 0 = [''rdb00_1'', ''rdb00_0'']"
proof -
  have t: "trimmed (DatabaseName (sqlDatabaseSettings env_blank_name 0)) = []"
    by code_simp
  have d: "driverType env_blank_name 0 = ''QSQLITE''"
    by code_simp
  have e: "isSqlDatabaseAvailable env_blank_name" "sqlDatabaseSettingsCount env_blank_name = 1"
    "maxNumberOfThreadsPerAppServer env_blank_name = 2"
    "addDatabaseValid env_blank_name = (\<lambda>type name. True)"
    by (simp_all add: env_blank_name_def env_example_def)
  show ?thesis
    using setDatabaseSettings_failure [of env_blank_name TSqlDatabase_default 0 state_empty]
    by (simp add: t d e upto_0_1 conn_name_examples)
qed

subsection \<open>The statements after an open\<close>

lemma exec_all_executed:
  "executed (exec_all h sts s) = executed s @ map (\<lambda>st. (connectionName h, trimmed st)) sts"
  by (induction sts arbitrary: s) (simp_all add: exec_def)

lemma exec_all_other:
  "cachedDatabase (exec_all h sts s) = cachedDatabase s
   \<and> availableNames (exec_all h sts s) = availableNames s
   \<and> lastCachedTime (exec_all h sts s) = lastCachedTime s
   \<and> registry (exec_all h sts s) = registry s
   \<and> openConnections (exec_all h sts s) = openConnections s
   \<and> timer (exec_all h sts s) = timer s"
  by (induction sts arbitrary: s) (simp_all add: exec_def)

text \<open>
  C6, as the specification has it: the list stored on the slot is the
  configuration string split on \<open>;\<close>, without the empty fragments, each fragment
  trimmed. For the string \<open>a ; b\<close> the slot gets the fragments \<open>a \<close> and \<open> b\<close>
  with their white space, not \<open>a\<close> and \<open>b\<close>.
\<close>

theorem post_open_statements_counterexample:
  "postOpenStatements
     (snd (setDatabaseSettings env_example
             (fst (addDatabase env_example state_empty ''QSQLITE'' ''rdb00_0'')) 0))
     = [''a '', '' b'']
   \<and> spec_parse_statements (PostOpenStatements (sqlDatabaseSettings env_example 0))
       = [''a'', ''b'']
   \<and> postOpenStatements
     (snd (setDatabaseSettings env_example
             (fst (addDatabase env_example state_empty ''QSQLITE'' ''rdb00_0'')) 0))
     \<noteq> spec_parse_statements (PostOpenStatements (sqlDatabaseSettings env_example 0))"
  by code_simp

lemma database_slow_path_open:
  assumes "isSqlDatabaseAvailable e"
    and "0 \<le> d" and "d < sqlDatabaseSettingsCount e"
    and "cachedDatabase s d = []"
    and "availableNames s d = name # rest"
    and "\<not> isOpen s (sqlDatabase (TSqlDatabase_database s name))"
    and "fst (open_db e s (sqlDatabase (TSqlDatabase_database s name)))"
  shows "database e d s =
           Some (Inr (sqlDatabase (TSqlDatabase_database s name)),
                 exec_all (sqlDatabase (TSqlDatabase_database s name))
                   (postOpenStatements (TSqlDatabase_database s name))
                   (s\<lparr>openConnections :=
                        insert (connectionName (sqlDatabase (TSqlDatabase_database s name)))
                          (openConnections s),
                      availableNames := (availableNames s)(d := rest)\<rparr>))"
proof -
  let ?tdb = "TSqlDatabase_database s name"
  from assms(7) have o: "snd (open_db e s (sqlDatabase ?tdb))
       = s\<lparr>openConnections := insert (connectionName (sqlDatabase ?tdb)) (openConnections s)\<rparr>"
    by (simp add: open_db_def split: if_splits)
  have "database_loop e d s =
           Some (sqlDatabase ?tdb,
                 exec_all (sqlDatabase ?tdb) (postOpenStatements ?tdb)
                   (s\<lparr>openConnections := insert (connectionName (sqlDatabase ?tdb)) (openConnections s),
                      availableNames := (availableNames s)(d := rest)\<rparr>))"
    using assms by (subst database_loop.simps) (simp add: pop_def o)
  with assms show ?thesis
    by (simp add: database_def)
qed

text \<open>
  C6, amended. When \<open>DatabaseName\<close> is not empty after trimming,
  \<open>setDatabaseSettings\<close> trims the whole \<open>PostOpenStatements\<close> string, splits it
  on \<open>;\<close> and drops the empty fragments; if fragments remain, that list is
  stored on the slot, the fragments as they are, and otherwise the list of the
  slot stays. On a successful open on the slow path, \<open>database\<close> returns the
  connection and has executed the stored statements, each trimmed at that
  moment, in the stored order, and nothing else.
\<close>

theorem post_open_statements:
  "(trimmed (DatabaseName (sqlDatabaseSettings e d)) \<noteq> [] \<longrightarrow>
      postOpenStatements (snd (setDatabaseSettings e db d)) =
        (let stmts = split_skip_empty CHR '';''
                       (trimmed (PostOpenStatements (sqlDatabaseSettings e d)))
         in if stmts \<noteq> [] then stmts else postOpenStatements db))
   \<and> (isSqlDatabaseAvailable e \<and> 0 \<le> d \<and> d < sqlDatabaseSettingsCount e
        \<and> cachedDatabase s d = [] \<and> availableNames s d = name # rest
        \<and> \<not> isOpen s (sqlDatabase (TSqlDatabase_database s name))
        \<and> fst (open_db e s (sqlDatabase (TSqlDatabase_database s name)))
       \<longrightarrow> (\<exists>s'. database e d s = Some (Inr (sqlDatabase (TSqlDatabase_database s name)), s')
                 \<and> executed s' =
                     executed s
                     @ map (\<lambda>st. (connectionName (sqlDatabase (TSqlDatabase_database s name)),
                                  trimmed st))
                         (postOpenStatements (TSqlDatabase_database s name))))"
  by (simp add: setDatabaseSettings_statements database_slow_path_open exec_all_executed)

theorem post_open_statements_witness:
  "trimmed (DatabaseName (sqlDatabaseSettings env_example 0)) \<noteq> []
   \<and> postOpenStatements (snd (setDatabaseSettings env_example TSqlDatabase_default 0))
       = [''a '', '' b'']
   \<and> isSqlDatabaseAvailable env_example \<and> (0::int) < sqlDatabaseSettingsCount env_example
   \<and> cachedDatabase state_example 0 = []
   \<and> availableNames state_example 0 = [''rdb00_1'', ''rdb00_0'']
   \<and> \<not> isOpen state_example (sqlDatabase (TSqlDatabase_database state_example ''rdb00_1''))
   \<and> fst (open_db env_example state_example
            (sqlDatabase (TSqlDatabase_database state_example ''rdb00_1'')))
   \<and> (\<exists>s'. database env_example 0 state_example
               = Some (Inr \<lparr>connectionName = ''rdb00_1'', isValid = True\<rparr>, s')
           \<and> executed s' = [(''rdb00_1'', ''a''), (''rdb00_1'', ''b'')])"
proof -
  have t: "trimmed (DatabaseName (sqlDatabaseSettings env_example 0)) = ''test.db''"
    "split_skip_empty CHR '';'' (trimmed (PostOpenStatements (sqlDatabaseSettings env_example 0)))
       = [''a '', '' b'']"
    "trimmed ''a '' = ''a''" "trimmed '' b'' = ''b''"
    by code_simp+
  have l: "TSqlDatabase_database state_example ''rdb00_1'' = slot_example ''rdb00_1''"
    by (simp add: TSqlDatabase_database_def state_example_def)
  show ?thesis
    using post_open_statements [of env_example 0 TSqlDatabase_default state_example
            "''rdb00_1''" "[''rdb00_0'']"]
    by (simp add: t l slot_example_def isOpen_def open_db_def)
       (simp add: env_example_def state_example_def)
qed

subsection \<open>The timer event\<close>

lemma stale_if_older:
  assumes "unat (lastCachedTime s d) + 30 < unat now"
  shows "stale now s d"
proof -
  from assms have "(30 :: 32 word) \<le> now"
    by (simp add: word_le_nat_alt)
  then have "unat (now - 30) = unat now - 30"
    by (simp add: unat_sub)
  with assms show ?thesis
    by (simp add: stale_def word_less_nat_alt)
qed

lemma TSqlDatabase_database_cong:
  "registry s' = registry s \<Longrightarrow> TSqlDatabase_database s' n = TSqlDatabase_database s n"
  by (simp add: TSqlDatabase_database_def)

lemma TSqlDatabase_database_update [simp]:
  "TSqlDatabase_database (s\<lparr>cachedDatabase := c\<rparr>) = TSqlDatabase_database s"
  "TSqlDatabase_database (s\<lparr>availableNames := a\<rparr>) = TSqlDatabase_database s"
  "TSqlDatabase_database (s\<lparr>openConnections := oc\<rparr>) = TSqlDatabase_database s"
  "TSqlDatabase_database (s\<lparr>lastCachedTime := l\<rparr>) = TSqlDatabase_database s"
  "TSqlDatabase_database (s\<lparr>executed := x\<rparr>) = TSqlDatabase_database s"
  by (simp_all add: TSqlDatabase_database_def fun_eq_iff)

lemma closeDatabase_in_range:
  assumes "0 \<le> getDatabaseId h" and "getDatabaseId h < sqlDatabaseSettingsCount e"
  shows "closeDatabase e s h =
           Inr (s\<lparr>openConnections := openConnections s - {connectionName h},
                  availableNames := push (connectionName h) (getDatabaseId h) (availableNames s)\<rparr>)"
  using assms by (simp add: closeDatabase_def close_db_def Let_def)

lemma reap_cache_fresh: "\<not> stale now s i \<Longrightarrow> reap_cache e now i s = Inr s"
  by (subst reap_cache.simps) (simp add: stale_def)

lemma reap_cache_stale:
  assumes "0 \<le> i" and "i < sqlDatabaseSettingsCount e" and "stale now s i"
    and "\<forall>n \<in> set (cachedDatabase s i).
           connectionName (sqlDatabase (TSqlDatabase_database s n)) = n
           \<and> getDatabaseId (sqlDatabase (TSqlDatabase_database s n)) = i"
  shows "reap_cache e now i s =
           Inr (s\<lparr>cachedDatabase := (cachedDatabase s)(i := []),
                  availableNames := (availableNames s)(i := rev (cachedDatabase s i) @ availableNames s i),
                  openConnections := openConnections s - set (cachedDatabase s i)\<rparr>)"
  using assms
proof (induction xs \<equiv> "cachedDatabase s i" arbitrary: s)
  case Nil
  then have "reap_cache e now i s = Inr s"
    by (subst reap_cache.simps) (simp add: pop_def)
  moreover from Nil have "(cachedDatabase s)(i := []) = cachedDatabase s"
    "(availableNames s)(i := availableNames s i) = availableNames s"
    by (auto simp: fun_eq_iff)
  ultimately show ?case
    using Nil(1) [symmetric] by simp
next
  case (Cons n rest)
  let ?h = "sqlDatabase (TSqlDatabase_database s n)"
  let ?s1 = "s\<lparr>cachedDatabase := (cachedDatabase s)(i := rest)\<rparr>"
  let ?s2 = "?s1\<lparr>openConnections := openConnections ?s1 - {n},
                  availableNames := push n i (availableNames ?s1)\<rparr>"
  from Cons.hyps(2) Cons.prems have h: "connectionName ?h = n" "getDatabaseId ?h = i"
    by (metis list.set_intros(1))+
  with Cons.prems have c: "closeDatabase e ?s1 ?h = Inr ?s2"
    by (simp add: closeDatabase_in_range)
  have step: "reap_cache e now i s = reap_cache e now i ?s2"
    using Cons.hyps(2) [symmetric] Cons.prems(3) c
    by (subst reap_cache.simps) (simp add: pop_def stale_def)
  have reg: "registry ?s2 = registry s" by simp
  have "reap_cache e now i ?s2 =
           Inr (?s2\<lparr>cachedDatabase := (cachedDatabase ?s2)(i := []),
                  availableNames := (availableNames ?s2)(i := rev (cachedDatabase ?s2 i) @ availableNames ?s2 i),
                  openConnections := openConnections ?s2 - set (cachedDatabase ?s2 i)\<rparr>)"
  proof (rule Cons.hyps(1))
    show "rest = cachedDatabase ?s2 i" by simp
    show "0 \<le> i" "i < sqlDatabaseSettingsCount e" by fact+
    from Cons.prems(3) show "stale now ?s2 i" by (simp add: stale_def)
    from Cons.prems(4) Cons.hyps(2) [symmetric]
    show "\<forall>n \<in> set (cachedDatabase ?s2 i).
           connectionName (sqlDatabase (TSqlDatabase_database ?s2 n)) = n
           \<and> getDatabaseId (sqlDatabase (TSqlDatabase_database ?s2 n)) = i"
      by simp
  qed
  also have "\<dots> = Inr (s\<lparr>cachedDatabase := (cachedDatabase s)(i := []),
                  availableNames := (availableNames s)(i := rev (cachedDatabase s i) @ availableNames s i),
                  openConnections := openConnections s - set (cachedDatabase s i)\<rparr>)"
  proof -
    have "openConnections s - {n} - set rest = openConnections s - insert n (set rest)"
      by blast
    then show ?thesis
      using Cons.hyps(2) [symmetric] by (simp add: push_def)
  qed
  finally show ?case
    using step by simp
qed

lemma reap_databases_result:
  assumes "distinct js"
    and "\<forall>j \<in> set js. 0 \<le> j \<and> j < sqlDatabaseSettingsCount e"
    and "\<forall>j \<in> set js. \<forall>n \<in> set (cachedDatabase s j).
           connectionName (sqlDatabase (TSqlDatabase_database s n)) = n
           \<and> getDatabaseId (sqlDatabase (TSqlDatabase_database s n)) = j"
  shows "\<exists>s'. reap_databases e now js s = Inr s'
           \<and> registry s' = registry s \<and> lastCachedTime s' = lastCachedTime s
           \<and> timer s' = timer s \<and> executed s' = executed s
           \<and> (\<forall>d. cachedDatabase s' d =
                     (if d \<in> set js \<and> stale now s d then [] else cachedDatabase s d))
           \<and> (\<forall>d. availableNames s' d =
                     (if d \<in> set js \<and> stale now s d
                      then rev (cachedDatabase s d) @ availableNames s d
                      else availableNames s d))
           \<and> openConnections s' =
               openConnections s - (\<Union>d \<in> {d \<in> set js. stale now s d}. set (cachedDatabase s d))"
  using assms
proof (induction js arbitrary: s)
  case Nil
  then show ?case by simp
next
  case (Cons j js)
  let ?s1 = "s\<lparr>cachedDatabase := (cachedDatabase s)(j := []),
                availableNames := (availableNames s)(j := rev (cachedDatabase s j) @ availableNames s j),
                openConnections := openConnections s - set (cachedDatabase s j)\<rparr>"
  show ?case
  proof (cases "cachedDatabase s j \<noteq> [] \<and> stale now s j")
    case False
    then have skip: "reap_databases e now (j # js) s = reap_databases e now js s"
      by (auto simp: reap_cache_fresh)
    from Cons.prems have "\<exists>s'. reap_databases e now js s = Inr s'
           \<and> registry s' = registry s \<and> lastCachedTime s' = lastCachedTime s
           \<and> timer s' = timer s \<and> executed s' = executed s
           \<and> (\<forall>d. cachedDatabase s' d =
                     (if d \<in> set js \<and> stale now s d then [] else cachedDatabase s d))
           \<and> (\<forall>d. availableNames s' d =
                     (if d \<in> set js \<and> stale now s d
                      then rev (cachedDatabase s d) @ availableNames s d
                      else availableNames s d))
           \<and> openConnections s' =
               openConnections s - (\<Union>d \<in> {d \<in> set js. stale now s d}. set (cachedDatabase s d))"
      by (intro Cons.IH) simp_all
    then obtain s' where s': "reap_databases e now js s = Inr s'"
      "registry s' = registry s" "lastCachedTime s' = lastCachedTime s"
      "timer s' = timer s" "executed s' = executed s"
      "\<And>d. cachedDatabase s' d =
                     (if d \<in> set js \<and> stale now s d then [] else cachedDatabase s d)"
      "\<And>d. availableNames s' d =
                     (if d \<in> set js \<and> stale now s d
                      then rev (cachedDatabase s d) @ availableNames s d
                      else availableNames s d)"
      "openConnections s' =
               openConnections s - (\<Union>d \<in> {d \<in> set js. stale now s d}. set (cachedDatabase s d))"
      by blast
    from False have "(\<Union>d \<in> {d \<in> set (j # js). stale now s d}. set (cachedDatabase s d))
                     = (\<Union>d \<in> {d \<in> set js. stale now s d}. set (cachedDatabase s d))"
      by auto
    with s' False show ?thesis
      unfolding skip by auto
  next
    case True
    with Cons.prems have r: "reap_cache e now j s = Inr ?s1"
      by (intro reap_cache_stale) simp_all
    with True have step: "reap_databases e now (j # js) s = reap_databases e now js ?s1"
      by simp
    from Cons.prems(1) have nj: "j \<notin> set js" by simp
    have st: "stale now ?s1 = stale now s"
      by (simp add: stale_def fun_eq_iff)
    have "\<exists>s'. reap_databases e now js ?s1 = Inr s'
           \<and> registry s' = registry ?s1 \<and> lastCachedTime s' = lastCachedTime ?s1
           \<and> timer s' = timer ?s1 \<and> executed s' = executed ?s1
           \<and> (\<forall>d. cachedDatabase s' d =
                     (if d \<in> set js \<and> stale now ?s1 d then [] else cachedDatabase ?s1 d))
           \<and> (\<forall>d. availableNames s' d =
                     (if d \<in> set js \<and> stale now ?s1 d
                      then rev (cachedDatabase ?s1 d) @ availableNames ?s1 d
                      else availableNames ?s1 d))
           \<and> openConnections s' =
               openConnections ?s1 - (\<Union>d \<in> {d \<in> set js. stale now ?s1 d}. set (cachedDatabase ?s1 d))"
    proof (rule Cons.IH)
      from Cons.prems show "distinct js" by simp
      from Cons.prems show "\<forall>j \<in> set js. 0 \<le> j \<and> j < sqlDatabaseSettingsCount e" by simp
      from Cons.prems(3) nj
      show "\<forall>j \<in> set js. \<forall>n \<in> set (cachedDatabase ?s1 j).
           connectionName (sqlDatabase (TSqlDatabase_database ?s1 n)) = n
           \<and> getDatabaseId (sqlDatabase (TSqlDatabase_database ?s1 n)) = j"
        by auto
    qed
    then obtain s' where s': "reap_databases e now js ?s1 = Inr s'"
      "registry s' = registry s" "lastCachedTime s' = lastCachedTime s"
      "timer s' = timer s" "executed s' = executed s"
      "\<And>d. cachedDatabase s' d =
                     (if d \<in> set js \<and> stale now s d then [] else cachedDatabase ?s1 d)"
      "\<And>d. availableNames s' d =
                     (if d \<in> set js \<and> stale now s d
                      then rev (cachedDatabase ?s1 d) @ availableNames ?s1 d
                      else availableNames ?s1 d)"
      "openConnections s' =
               openConnections ?s1 - (\<Union>d \<in> {d \<in> set js. stale now s d}. set (cachedDatabase ?s1 d))"
      unfolding st by auto
    have u: "(\<Union>d \<in> {d \<in> set js. stale now s d}. set (cachedDatabase ?s1 d))
              = (\<Union>d \<in> {d \<in> set js. stale now s d}. set (cachedDatabase s d))"
      using nj by (auto split: if_splits)
    from True have "(\<Union>d \<in> {d \<in> set (j # js). stale now s d}. set (cachedDatabase s d))
                     = set (cachedDatabase s j)
                       \<union> (\<Union>d \<in> {d \<in> set js. stale now s d}. set (cachedDatabase s d))"
      by auto
    then have oc: "openConnections s' =
               openConnections s - (\<Union>d \<in> {d \<in> set (j # js). stale now s d}. set (cachedDatabase s d))"
      unfolding s'(8) u by auto
    from s'(6) nj True have "\<And>d. cachedDatabase s' d =
                     (if d \<in> set (j # js) \<and> stale now s d then [] else cachedDatabase s d)"
      by auto
    moreover from s'(7) nj True have "\<And>d. availableNames s' d =
                     (if d \<in> set (j # js) \<and> stale now s d
                      then rev (cachedDatabase s d) @ availableNames s d
                      else availableNames s d)"
      by auto
    ultimately show ?thesis
      unfolding step using s'(1-5) oc by auto
  qed
qed

text \<open>
  C7. A timer event of the pool's own timer, in a state where the names in the
  caches are registered connections of their database. For every database
  \<open>d\<close> in range the event returns normally, and: if the last return into the
  cache of \<open>d\<close> is more than 30 seconds before \<open>now\<close>, the cache of \<open>d\<close> is empty
  afterwards, its names have been pushed onto \<open>availableNames d\<close> in the order
  in which they were popped, and none of their connections is open any more;
  if the cache of \<open>d\<close> was empty, both stacks of \<open>d\<close> are as before. The
  connections closed by the event are exactly those in the caches of the
  databases that pass the test of the loop, and no time stamp changes.
\<close>

theorem timerEvent_reaps:
  assumes "timer s = Some (tid, ival)"
    and "cached_registered e s"
    and "0 \<le> d" and "d < sqlDatabaseSettingsCount e"
  shows "\<exists>s'. timerEvent e now tid s = Inr s'
           \<and> (unat (lastCachedTime s d) + 30 < unat now \<longrightarrow>
                cachedDatabase s' d = []
                \<and> availableNames s' d = rev (cachedDatabase s d) @ availableNames s d
                \<and> set (cachedDatabase s d) \<inter> openConnections s' = {})
           \<and> (cachedDatabase s d = [] \<longrightarrow>
                cachedDatabase s' d = [] \<and> availableNames s' d = availableNames s d)
           \<and> openConnections s' =
                openConnections s
                - (\<Union>j \<in> {j \<in> set [0..sqlDatabaseSettingsCount e - 1]. stale now s j}.
                     set (cachedDatabase s j))
           \<and> lastCachedTime s' = lastCachedTime s"
proof -
  let ?js = "[0..sqlDatabaseSettingsCount e - 1]"
  from assms(2) have "\<exists>s'. reap_databases e now ?js s = Inr s'
           \<and> registry s' = registry s \<and> lastCachedTime s' = lastCachedTime s
           \<and> timer s' = timer s \<and> executed s' = executed s
           \<and> (\<forall>d. cachedDatabase s' d =
                     (if d \<in> set ?js \<and> stale now s d then [] else cachedDatabase s d))
           \<and> (\<forall>d. availableNames s' d =
                     (if d \<in> set ?js \<and> stale now s d
                      then rev (cachedDatabase s d) @ availableNames s d
                      else availableNames s d))
           \<and> openConnections s' =
               openConnections s - (\<Union>d \<in> {d \<in> set ?js. stale now s d}. set (cachedDatabase s d))"
    by (intro reap_databases_result) (simp_all add: cached_registered_def)
  then obtain s' where s': "reap_databases e now ?js s = Inr s'"
      "lastCachedTime s' = lastCachedTime s"
      "\<And>d. cachedDatabase s' d =
                     (if d \<in> set ?js \<and> stale now s d then [] else cachedDatabase s d)"
      "\<And>d. availableNames s' d =
                     (if d \<in> set ?js \<and> stale now s d
                      then rev (cachedDatabase s d) @ availableNames s d
                      else availableNames s d)"
      "openConnections s' =
               openConnections s - (\<Union>d \<in> {d \<in> set ?js. stale now s d}. set (cachedDatabase s d))"
    by blast
  from assms have t: "timerEvent e now tid s = Inr s'"
    by (simp add: timerEvent_def s'(1))
  from assms have mem: "d \<in> set ?js" by simp
  have old: "cachedDatabase s' d = []
                \<and> availableNames s' d = rev (cachedDatabase s d) @ availableNames s d
                \<and> set (cachedDatabase s d) \<inter> openConnections s' = {}"
    if "unat (lastCachedTime s d) + 30 < unat now"
  proof -
    from that have "stale now s d" by (rule stale_if_older)
    with mem show ?thesis
      unfolding s'(3,4,5) by auto
  qed
  have emp: "cachedDatabase s' d = [] \<and> availableNames s' d = availableNames s d"
    if "cachedDatabase s d = []"
    using that by (simp add: s'(3,4))
  from t old emp s'(2,5) show ?thesis
    by blast
qed

lemma getDatabaseId_examples:
  "getDatabaseId \<lparr>connectionName = ''rdb00_0'', isValid = True\<rparr> = 0"
  "getDatabaseId \<lparr>connectionName = ''rdb00_1'', isValid = True\<rparr> = 0"
  by code_simp+

theorem timerEvent_reaps_witness:
  "timer state_cached = Some (1, 10000)
   \<and> cached_registered env_example state_cached
   \<and> unat (lastCachedTime state_cached 0) + 30 < unat (131 :: 32 word)
   \<and> (\<exists>s'. timerEvent env_example 131 1 state_cached = Inr s'
          \<and> cachedDatabase s' 0 = []
          \<and> availableNames s' 0 = [''rdb00_1'', ''rdb00_0'']
          \<and> {''rdb00_0'', ''rdb00_1''} \<inter> openConnections s' = {})"
proof -
  have t: "timer state_cached = Some (1, 10000)"
    by (simp add: state_cached_def state_example_def)
  have n: "sqlDatabaseSettingsCount env_example = 1"
    by (simp add: env_example_def)
  have c: "cached_registered env_example state_cached"
    by (simp add: cached_registered_def n upto_0_0 state_cached_def state_example_def
        TSqlDatabase_database_def slot_example_def getDatabaseId_examples)
  have f: "cachedDatabase state_cached 0 = [''rdb00_0'', ''rdb00_1'']"
    "availableNames state_cached 0 = []" "lastCachedTime state_cached 0 = 100"
    by (simp_all add: state_cached_def)
  show ?thesis
    using timerEvent_reaps [OF t c, of 0 131] by (simp add: t c n f) blast
qed

subsection \<open>Conservation of the slots\<close>

lemma database_loop_spins_aux:
  assumes "database_loop e d s = Some y"
  shows "\<not> (cachedDatabase s d = [] \<and> availableNames s d = [])"
proof (rule database_loop.raw_induct [OF _ assms], goal_cases)
  case (1 f e d s y)
  show ?case
  proof
    assume emp: "cachedDatabase s d = [] \<and> availableNames s d = []"
    with 1(2) have "f e d s = Some y"
      by (simp add: pop_def)
    with 1(1) emp show False
      by blast
  qed
qed

lemma database_loop_spins:
  "cachedDatabase s d = [] \<Longrightarrow> availableNames s d = [] \<Longrightarrow> database_loop e d s = None"
  using database_loop_spins_aux [of e d s] by (cases "database_loop e d s") auto

lemma database_loop_cached_open:
  assumes "cachedDatabase s d = name # rest"
    and "isOpen s (sqlDatabase (TSqlDatabase_database s name))"
  shows "database_loop e d s =
           Some (sqlDatabase (TSqlDatabase_database s name),
                 s\<lparr>cachedDatabase := (cachedDatabase s)(d := rest)\<rparr>)"
  using assms by (subst database_loop.simps) (simp add: pop_def)

lemma database_loop_cached_closed:
  assumes "cachedDatabase s d = name # rest"
    and "\<not> isOpen s (sqlDatabase (TSqlDatabase_database s name))"
  shows "database_loop e d s =
           database_loop e d
             (s\<lparr>cachedDatabase := (cachedDatabase s)(d := rest),
                availableNames := push name d (availableNames s)\<rparr>)"
  using assms by (subst database_loop.simps) (simp add: pop_def)

lemma database_loop_available:
  assumes "cachedDatabase s d = []" and "availableNames s d = name # rest"
  shows "database_loop e d s =
     (if isOpen s (sqlDatabase (TSqlDatabase_database s name))
      then Some (sqlDatabase (TSqlDatabase_database s name),
                 s\<lparr>availableNames := (availableNames s)(d := rest)\<rparr>)
      else if \<not> fst (open_db e s (sqlDatabase (TSqlDatabase_database s name)))
      then Some (QSqlDatabase_default, s)
      else Some (sqlDatabase (TSqlDatabase_database s name),
                 exec_all (sqlDatabase (TSqlDatabase_database s name))
                   (postOpenStatements (TSqlDatabase_database s name))
                   ((snd (open_db e s (sqlDatabase (TSqlDatabase_database s name))))
                      \<lparr>availableNames := (availableNames s)(d := rest)\<rparr>)))"
  using assms by (subst database_loop.simps) (simp add: pop_def push_pop_same)

lemma exec_all_names_of: "names_of (exec_all h sts s) d = names_of s d"
  by (simp add: names_of_def exec_all_other)

lemma database_loop_acquired:
  assumes "distinct (names_of s d)" and "names_of s d \<noteq> []"
    and "\<forall>n \<in> set (names_of s d).
           connectionName (sqlDatabase (TSqlDatabase_database s n)) = n
           \<and> isValid (sqlDatabase (TSqlDatabase_database s n))"
  shows "\<exists>h s'. database_loop e d s = Some (h, s') \<and> acquired d s h s'"
  using assms
proof (induction xs \<equiv> "cachedDatabase s d" arbitrary: s)
  case Nil
  then obtain name rest where av: "availableNames s d = name # rest"
    by (cases "availableNames s d") (auto simp: names_of_def)
  let ?h = "sqlDatabase (TSqlDatabase_database s name)"
  from Nil av have h: "connectionName ?h = name" "isValid ?h"
    by (auto simp: names_of_def)
  from Nil(1) [symmetric] av have n: "names_of s d = name # rest"
    by (simp add: names_of_def)
  with Nil.prems have dist: "name \<notin> set rest" "distinct rest"
    by simp_all
  have l: "database_loop e d s =
     (if isOpen s ?h
      then Some (?h, s\<lparr>availableNames := (availableNames s)(d := rest)\<rparr>)
      else if \<not> fst (open_db e s ?h)
      then Some (QSqlDatabase_default, s)
      else Some (?h,
                 exec_all ?h (postOpenStatements (TSqlDatabase_database s name))
                   ((snd (open_db e s ?h))\<lparr>availableNames := (availableNames s)(d := rest)\<rparr>)))"
    using Nil(1) [symmetric] av by (rule database_loop_available)
  consider (opened) "isOpen s ?h"
    | (failed) "\<not> isOpen s ?h" "\<not> fst (open_db e s ?h)"
    | (success) "\<not> isOpen s ?h" "fst (open_db e s ?h)"
    by blast
  then show ?case
  proof cases
    case opened
    have "acquired d s ?h (s\<lparr>availableNames := (availableNames s)(d := rest)\<rparr>)"
      using h n dist Nil(1) [symmetric]
      by (auto simp: acquired_def names_of_def)
    with opened l show ?thesis by simp
  next
    case failed
    have "acquired d s QSqlDatabase_default s"
      using Nil.prems(1) by (simp add: acquired_def QSqlDatabase_default_def)
    with failed l show ?thesis by simp
  next
    case success
    let ?s' = "exec_all ?h (postOpenStatements (TSqlDatabase_database s name))
                   ((snd (open_db e s ?h))\<lparr>availableNames := (availableNames s)(d := rest)\<rparr>)"
    from success(2) have o: "snd (open_db e s ?h)
       = s\<lparr>openConnections := insert (connectionName ?h) (openConnections s)\<rparr>"
      by (simp add: open_db_def split: if_splits)
    have "acquired d s ?h ?s'"
      using h n dist Nil(1) [symmetric]
      by (auto simp: acquired_def names_of_def exec_all_other o)
    with success l show ?thesis by simp
  qed
next
  case (Cons name rest)
  let ?h = "sqlDatabase (TSqlDatabase_database s name)"
  from Cons.hyps(2) [symmetric] have n: "names_of s d = availableNames s d @ name # rest"
    by (simp add: names_of_def)
  with Cons.prems have h: "connectionName ?h = name" "isValid ?h"
    by auto
  show ?case
  proof (cases "isOpen s ?h")
    case True
    let ?s' = "s\<lparr>cachedDatabase := (cachedDatabase s)(d := rest)\<rparr>"
    from Cons.hyps(2) [symmetric] True have "database_loop e d s = Some (?h, ?s')"
      by (rule database_loop_cached_open)
    moreover have "acquired d s ?h ?s'"
      using h n Cons.prems(1) by (auto simp: acquired_def names_of_def)
    ultimately show ?thesis by blast
  next
    case False
    let ?s1 = "s\<lparr>cachedDatabase := (cachedDatabase s)(d := rest),
                   availableNames := push name d (availableNames s)\<rparr>"
    from Cons.hyps(2) [symmetric] False have step: "database_loop e d s = database_loop e d ?s1"
      by (rule database_loop_cached_closed)
    have n1: "names_of ?s1 d = name # availableNames s d @ rest"
      by (simp add: names_of_def push_def)
    have "\<exists>h s'. database_loop e d ?s1 = Some (h, s') \<and> acquired d ?s1 h s'"
    proof (rule Cons.hyps(1))
      show "rest = cachedDatabase ?s1 d" by simp
      from Cons.prems(1) show "distinct (names_of ?s1 d)"
        unfolding n n1 by auto
      show "names_of ?s1 d \<noteq> []"
        unfolding n1 by simp
      from Cons.prems(3)
      show "\<forall>n \<in> set (names_of ?s1 d).
           connectionName (sqlDatabase (TSqlDatabase_database ?s1 n)) = n
           \<and> isValid (sqlDatabase (TSqlDatabase_database ?s1 n))"
        unfolding n n1 by auto
    qed
    then obtain h' s' where r: "database_loop e d ?s1 = Some (h', s')" "acquired d ?s1 h' s'"
      by blast
    have "set (names_of ?s1 d) = set (names_of s d)"
      unfolding n n1 by auto
    with r(2) have "acquired d s h' s'"
      by (auto simp: acquired_def push_def)
    with r(1) step show ?thesis by simp
  qed
qed

lemma getDatabaseId_connectionName:
  "connectionName h = connectionName h' \<Longrightarrow> getDatabaseId h = getDatabaseId h'"
  by (simp add: getDatabaseId_def)

lemma slots_conserved_card:
  assumes "slots_conserved s d B S"
  shows "length (availableNames s d) + length (cachedDatabase s d) = card (S - B)"
proof -
  from assms have "S - B = set (names_of s d)" and "distinct (names_of s d)"
    by (auto simp: slots_conserved_def)
  then have "card (S - B) = length (names_of s d)"
    by (simp add: distinct_card)
  then show ?thesis
    by (simp add: names_of_def)
qed

lemma registered_cong:
  "registry s' = registry s \<Longrightarrow> registered s' d S = registered s d S"
  by (simp add: registered_def TSqlDatabase_database_def)

lemma slots_conserved_cong:
  "names_of s' d = names_of s d \<Longrightarrow> slots_conserved s' d B S = slots_conserved s d B S"
  by (simp add: slots_conserved_def)

lemma pool_inv_update:
  assumes inv: "pool_inv e s B S"
    and reg: "registry s' = registry s"
    and other: "\<And>d'. d' \<noteq> d \<Longrightarrow> names_of s' d' = names_of s d'"
    and c: "slots_conserved s' d B' (S d)"
  shows "pool_inv e s' (B(d := B')) S"
  unfolding pool_inv_def
proof
  fix d'
  assume d': "d' \<in> set [0..sqlDatabaseSettingsCount e - 1]"
  with inv have i: "slots_conserved s d' (B d') (S d')" "registered s d' (S d')"
    by (simp_all add: pool_inv_def)
  show "slots_conserved s' d' ((B(d := B')) d') (S d') \<and> registered s' d' (S d')"
  proof (cases "d' = d")
    case True
    with c i show ?thesis
      by (simp add: registered_cong [OF reg])
  next
    case False
    from other [OF False]
    have "slots_conserved s' d' (B d') (S d') = slots_conserved s d' (B d') (S d')"
      by (rule slots_conserved_cong)
    with i False show ?thesis
      by (simp add: registered_cong [OF reg])
  qed
qed

lemma pool_inv_acquired:
  assumes inv: "pool_inv e s B S"
    and d: "0 \<le> d" "d < sqlDatabaseSettingsCount e"
    and acq: "acquired d s h s'"
  shows "if isValid h
         then connectionName h \<in> S d - B d
              \<and> pool_inv e s' (B(d := insert (connectionName h) (B d))) S
         else pool_inv e s' B S"
proof -
  from acq have reg: "registry s' = registry s"
    by (simp add: acquired_def)
  from acq have other: "names_of s' d' = names_of s d'" if "d' \<noteq> d" for d'
    using that by (simp add: acquired_def names_of_def)
  from inv d have c: "slots_conserved s d (B d) (S d)"
    by (simp add: pool_inv_def)
  show ?thesis
  proof (cases "isValid h")
    case True
    with acq have n: "connectionName h \<in> set (names_of s d)"
      "set (names_of s' d) = set (names_of s d) - {connectionName h}"
      "distinct (names_of s' d)"
      by (simp_all add: acquired_def)
    with c have "connectionName h \<in> S d - B d"
      by (auto simp: slots_conserved_def)
    moreover from n c have "slots_conserved s' d (insert (connectionName h) (B d)) (S d)"
      by (auto simp: slots_conserved_def)
    then have "pool_inv e s' (B(d := insert (connectionName h) (B d))) S"
      using inv reg other by (intro pool_inv_update [of e s]) simp_all
    ultimately show ?thesis
      using True by simp
  next
    case False
    with acq have n: "set (names_of s' d) = set (names_of s d)" "distinct (names_of s' d)"
      by (simp_all add: acquired_def)
    with c have "slots_conserved s' d (B d) (S d)"
      by (auto simp: slots_conserved_def)
    then have "pool_inv e s' (B(d := B d)) S"
      using inv reg other by (intro pool_inv_update [of e s]) simp_all
    then have "pool_inv e s' B S"
      by simp
    with False show ?thesis by simp
  qed
qed

lemma pool_inv_release:
  assumes inv: "pool_inv e s B S"
    and d: "0 \<le> d" "d < sqlDatabaseSettingsCount e"
    and h: "isValid h" "connectionName h \<in> B d"
  shows "\<exists>s'. pool e now s h forceClose = Inr (QSqlDatabase_default, s')
              \<and> pool_inv e s' (B(d := B d - {connectionName h})) S"
proof -
  let ?n = "connectionName h"
  from inv d have c: "slots_conserved s d (B d) (S d)" and r: "registered s d (S d)"
    by (simp_all add: pool_inv_def)
  from c h have nS: "?n \<in> S d" and fresh: "?n \<notin> set (names_of s d)"
    by (auto simp: slots_conserved_def)
  from r nS have "getDatabaseId (sqlDatabase (TSqlDatabase_database s ?n)) = d"
    "connectionName (sqlDatabase (TSqlDatabase_database s ?n)) = ?n"
    by (simp_all add: registered_def)
  then have id: "getDatabaseId h = d"
    using getDatabaseId_connectionName [of h "sqlDatabase (TSqlDatabase_database s ?n)"]
    by simp
  let ?s' = "if forceClose
             then s\<lparr>openConnections := openConnections s - {?n},
                    availableNames := push ?n d (availableNames s)\<rparr>
             else s\<lparr>cachedDatabase := push ?n d (cachedDatabase s),
                    lastCachedTime := (lastCachedTime s)(d := now)\<rparr>"
  from h d id have p: "pool e now s h forceClose = Inr (QSqlDatabase_default, ?s')"
    by (simp add: pool_def closeDatabase_in_range)
  have reg: "registry ?s' = registry s" by simp
  have other: "names_of ?s' d' = names_of s d'" if "d' \<noteq> d" for d'
    using that by (simp add: names_of_def push_def)
  have "set (names_of ?s' d) = insert ?n (set (names_of s d))"
    "distinct (names_of ?s' d) = (distinct (names_of s d) \<and> ?n \<notin> set (names_of s d))"
    by (auto simp: names_of_def push_def)
  with c fresh h have "slots_conserved ?s' d (B d - {?n}) (S d)"
    unfolding slots_conserved_def by auto
  then have "pool_inv e ?s' (B(d := B d - {?n})) S"
    using inv reg other by (intro pool_inv_update [of e s]) simp_all
  with p show ?thesis
    by blast
qed

lemma pool_inv_cached_registered:
  assumes "pool_inv e s B S"
  shows "cached_registered e s"
  unfolding cached_registered_def
proof (intro ballI)
  fix d n
  assume d: "d \<in> set [0..sqlDatabaseSettingsCount e - 1]" and n: "n \<in> set (cachedDatabase s d)"
  from assms d have "slots_conserved s d (B d) (S d)" "registered s d (S d)"
    by (simp_all add: pool_inv_def)
  moreover from n have "n \<in> set (names_of s d)"
    by (simp add: names_of_def)
  ultimately show "connectionName (sqlDatabase (TSqlDatabase_database s n)) = n
          \<and> getDatabaseId (sqlDatabase (TSqlDatabase_database s n)) = d"
    by (auto simp: slots_conserved_def registered_def)
qed

lemma pool_inv_timerEvent:
  assumes inv: "pool_inv e s B S"
  shows "\<exists>s'. timerEvent e now tid s = Inr s' \<and> pool_inv e s' B S"
proof (cases "case timer s of None \<Rightarrow> False | Some (t, ival) \<Rightarrow> tid = t")
  case False
  then have "timerEvent e now tid s = Inr s"
    by (simp add: timerEvent_def)
  with inv show ?thesis by simp
next
  case True
  let ?js = "[0..sqlDatabaseSettingsCount e - 1]"
  from pool_inv_cached_registered [OF inv]
  have "\<exists>s'. reap_databases e now ?js s = Inr s'
           \<and> registry s' = registry s \<and> lastCachedTime s' = lastCachedTime s
           \<and> timer s' = timer s \<and> executed s' = executed s
           \<and> (\<forall>d. cachedDatabase s' d =
                     (if d \<in> set ?js \<and> stale now s d then [] else cachedDatabase s d))
           \<and> (\<forall>d. availableNames s' d =
                     (if d \<in> set ?js \<and> stale now s d
                      then rev (cachedDatabase s d) @ availableNames s d
                      else availableNames s d))
           \<and> openConnections s' =
               openConnections s - (\<Union>d \<in> {d \<in> set ?js. stale now s d}. set (cachedDatabase s d))"
    by (intro reap_databases_result) (simp_all add: cached_registered_def)
  then obtain s' where s': "reap_databases e now ?js s = Inr s'"
      "registry s' = registry s"
      "\<And>d. cachedDatabase s' d =
                     (if d \<in> set ?js \<and> stale now s d then [] else cachedDatabase s d)"
      "\<And>d. availableNames s' d =
                     (if d \<in> set ?js \<and> stale now s d
                      then rev (cachedDatabase s d) @ availableNames s d
                      else availableNames s d)"
    by blast
  from True have t: "timerEvent e now tid s = Inr s'"
    by (simp add: timerEvent_def s'(1))
  have "pool_inv e s' B S"
    unfolding pool_inv_def
  proof
    fix d
    assume d: "d \<in> set ?js"
    with inv have i: "slots_conserved s d (B d) (S d)" "registered s d (S d)"
      by (simp_all add: pool_inv_def)
    have "set (names_of s' d) = set (names_of s d)"
      "distinct (names_of s' d) = distinct (names_of s d)"
      by (auto simp: names_of_def s'(3,4))
    with i show "slots_conserved s' d (B d) (S d) \<and> registered s' d (S d)"
      by (simp add: slots_conserved_def registered_cong [OF s'(2)])
  qed
  with t show ?thesis by blast
qed

text \<open>
  C1, as the specification has it: every pool operation, acquire among them,
  keeps the number of names on the two stacks of a database at the number of
  worker threads. In the small configuration after start-up the two stacks of
  database 0 hold two distinct names, the number of worker threads; after
  \<open>database 0\<close> has returned the connection \<open>rdb00_1\<close> they hold one.
\<close>

theorem slot_count_counterexample:
  "length (availableNames state_example 0) + length (cachedDatabase state_example 0)
     = nat (maxNumberOfThreadsPerAppServer env_example)
   \<and> distinct (availableNames state_example 0 @ cachedDatabase state_example 0)
   \<and> fst (the (database env_example 0 state_example))
       = Inr \<lparr>connectionName = ''rdb00_1'', isValid = True\<rparr>
   \<and> length (availableNames (snd (the (database env_example 0 state_example))) 0)
       + length (cachedDatabase (snd (the (database env_example 0 state_example))) 0)
     \<noteq> nat (maxNumberOfThreadsPerAppServer env_example)"
  by code_simp

text \<open>
  C1, amended. Let \<open>B d\<close> be the names of database \<open>d\<close> that are borrowed and
  \<open>S d\<close> its registered slots, and let \<open>pool_inv\<close> hold: for every database in
  range no name is twice on its two stacks, none of them is in \<open>B d\<close>, with
  \<open>B d\<close> they make up \<open>S d\<close>, and every slot is registered under its own name
  with a valid handle and carries the index \<open>d\<close>. Then the two stacks of \<open>d\<close>
  hold as many names as there are slots that are not borrowed (all of them
  when nothing is borrowed), and each operation keeps \<open>pool_inv\<close>:
  \<^item> \<open>database d\<close> does not return when both stacks are empty; otherwise it
    returns a handle, and either the handle is valid, its name was a slot not
    borrowed, and \<open>pool_inv\<close> holds with that name added to \<open>B d\<close>, or the
    handle is invalid and \<open>pool_inv\<close> holds with \<open>B\<close> as it was;
  \<^item> \<open>pool\<close> for a valid handle whose name is in \<open>B d\<close>, closing it or not,
    returns normally and \<open>pool_inv\<close> holds with the name removed from \<open>B d\<close>;
  \<^item> a timer event returns normally and \<open>pool_inv\<close> holds with \<open>B\<close> as it was.
\<close>

theorem pool_operations_conserve_slots:
  assumes inv: "pool_inv e s B S"
    and av: "isSqlDatabaseAvailable e"
    and d: "0 \<le> d" "d < sqlDatabaseSettingsCount e"
  shows "length (availableNames s d) + length (cachedDatabase s d) = card (S d - B d)
    \<and> (names_of s d = [] \<longrightarrow> database e d s = None)
    \<and> (names_of s d \<noteq> [] \<longrightarrow>
         (\<exists>h s'. database e d s = Some (Inr h, s')
            \<and> (if isValid h
                then connectionName h \<in> S d - B d
                     \<and> pool_inv e s' (B(d := insert (connectionName h) (B d))) S
                else pool_inv e s' B S)))
    \<and> (\<forall>h forceClose now. isValid h \<and> connectionName h \<in> B d \<longrightarrow>
         (\<exists>s'. pool e now s h forceClose = Inr (QSqlDatabase_default, s')
            \<and> pool_inv e s' (B(d := B d - {connectionName h})) S))
    \<and> (\<forall>now tid. \<exists>s'. timerEvent e now tid s = Inr s' \<and> pool_inv e s' B S)"
proof (intro conjI impI allI)
  from inv d have c: "slots_conserved s d (B d) (S d)" and r: "registered s d (S d)"
    by (simp_all add: pool_inv_def)
  from c show "length (availableNames s d) + length (cachedDatabase s d) = card (S d - B d)"
    by (rule slots_conserved_card)
  show "database e d s = None" if "names_of s d = []"
    using that av d by (simp add: database_def names_of_def database_loop_spins)
  show "\<exists>h s'. database e d s = Some (Inr h, s')
            \<and> (if isValid h
                then connectionName h \<in> S d - B d
                     \<and> pool_inv e s' (B(d := insert (connectionName h) (B d))) S
                else pool_inv e s' B S)"
    if "names_of s d \<noteq> []"
  proof -
    from c r have "distinct (names_of s d)"
      and "\<forall>n \<in> set (names_of s d).
           connectionName (sqlDatabase (TSqlDatabase_database s n)) = n
           \<and> isValid (sqlDatabase (TSqlDatabase_database s n))"
      by (auto simp: slots_conserved_def registered_def)
    with that obtain h s' where l: "database_loop e d s = Some (h, s')" "acquired d s h s'"
      using database_loop_acquired [of s d e] by blast
    from av d l(1) have "database e d s = Some (Inr h, s')"
      by (simp add: database_def)
    with pool_inv_acquired [OF inv d l(2)] show ?thesis
      by blast
  qed
  show "\<exists>s'. pool e now s h forceClose = Inr (QSqlDatabase_default, s')
            \<and> pool_inv e s' (B(d := B d - {connectionName h})) S"
    if "isValid h \<and> connectionName h \<in> B d" for h forceClose now
    using that pool_inv_release [OF inv d] by blast
  show "\<exists>s'. timerEvent e now tid s = Inr s' \<and> pool_inv e s' B S" for now tid
    using inv by (rule pool_inv_timerEvent)
qed

lemma pool_inv_example:
  "pool_inv env_example state_example (\<lambda>_. {}) (\<lambda>_. {''rdb00_0'', ''rdb00_1''})"
  by (simp add: pool_inv_def env_example_def upto_0_0 slots_conserved_def names_of_def
      registered_def state_example_def TSqlDatabase_database_def slot_example_def
      getDatabaseId_examples insert_commute)

theorem pool_operations_conserve_slots_witness:
  "pool_inv env_example state_example (\<lambda>_. {}) (\<lambda>_. {''rdb00_0'', ''rdb00_1''})
   \<and> isSqlDatabaseAvailable env_example \<and> (0::int) < sqlDatabaseSettingsCount env_example
   \<and> length (availableNames state_example 0) + length (cachedDatabase state_example 0) = 2
   \<and> names_of state_example 0 \<noteq> []
   \<and> (\<exists>h s'. database env_example 0 state_example = Some (Inr h, s')
         \<and> isValid h \<and> connectionName h \<in> {''rdb00_0'', ''rdb00_1''}
         \<and> pool_inv env_example s' ((\<lambda>_. {})(0 := {connectionName h}))
               (\<lambda>_. {''rdb00_0'', ''rdb00_1''})
         \<and> (\<exists>s''. pool env_example 200 s' h False = Inr (QSqlDatabase_default, s'')
                \<and> pool_inv env_example s'' (\<lambda>_. {}) (\<lambda>_. {''rdb00_0'', ''rdb00_1''})))"
proof -
  let ?S = "\<lambda>_ :: int. {''rdb00_0'', ''rdb00_1''}"
  let ?B = "\<lambda>_ :: int. {} :: string set"
  have e: "isSqlDatabaseAvailable env_example" "(0::int) \<le> 0"
    "(0::int) < sqlDatabaseSettingsCount env_example"
    by (simp_all add: env_example_def)
  have n: "names_of state_example 0 = [''rdb00_1'', ''rdb00_0'']"
    by (simp add: names_of_def state_example_def)
  note first = pool_operations_conserve_slots [OF pool_inv_example e]
  from first have len:
    "length (availableNames state_example 0) + length (cachedDatabase state_example 0) = 2"
    by simp
  from first n obtain h s' where acq: "database env_example 0 state_example = Some (Inr h, s')"
    "if isValid h
     then connectionName h \<in> ?S 0 - ?B 0
          \<and> pool_inv env_example s' (?B(0 := insert (connectionName h) (?B 0))) ?S
     else pool_inv env_example s' ?B ?S"
    by auto
  have "fst (the (database env_example 0 state_example))
          = Inr \<lparr>connectionName = ''rdb00_1'', isValid = True\<rparr>"
    by code_simp
  with acq(1) have h: "h = \<lparr>connectionName = ''rdb00_1'', isValid = True\<rparr>"
    by simp
  with acq(2) have inv': "pool_inv env_example s' (?B(0 := {connectionName h})) ?S"
    by simp
  let ?B' = "?B(0 := {connectionName h})"
  note second = pool_operations_conserve_slots [OF inv' e]
  have "\<forall>h' forceClose now. isValid h' \<and> connectionName h' \<in> ?B' 0 \<longrightarrow>
         (\<exists>s''. pool env_example now s' h' forceClose = Inr (QSqlDatabase_default, s'')
            \<and> pool_inv env_example s'' (?B'(0 := ?B' 0 - {connectionName h'})) ?S)"
    by (rule conjunct1 [OF conjunct2 [OF conjunct2 [OF conjunct2 [OF second]]]])
  then have "isValid h \<and> connectionName h \<in> ?B' 0 \<longrightarrow>
         (\<exists>s''. pool env_example 200 s' h False = Inr (QSqlDatabase_default, s'')
            \<and> pool_inv env_example s'' (?B'(0 := ?B' 0 - {connectionName h})) ?S)"
    by blast
  moreover from h have "isValid h \<and> connectionName h \<in> ?B' 0"
    by simp
  ultimately obtain s'' where rel:
    "pool env_example 200 s' h False = Inr (QSqlDatabase_default, s'')"
    "pool_inv env_example s'' (?B'(0 := ?B' 0 - {connectionName h})) ?S"
    by blast
  have "?B'(0 := ?B' 0 - {connectionName h}) = ?B"
    by (simp add: fun_eq_iff)
  with rel(2) have "pool_inv env_example s'' ?B ?S"
    by simp
  with pool_inv_example e len n acq(1) h inv' rel(1) show ?thesis
    by auto
qed

subsection \<open>Start-up establishes the conservation of the slots\<close>

text \<open>
  With at most 100 databases, and valid connections for all slots of every
  database whose driver type is not empty, the pool after \<open>init\<close> satisfies
  \<open>pool_inv\<close> with nothing borrowed and the names on \<open>availableNames\<close> as the
  slots.
\<close>

lemma init_slots_is_registered:
  assumes "\<forall>i \<in> set is. addDatabaseValid e t (conn_name j i)"
    and "is_registered n s \<or> n \<in> conn_name j ` set is"
  shows "is_registered n (init_slots e t j is s)"
  using assms
proof (induction "is" arbitrary: s)
  case Nil
  then show ?case by simp
next
  case (Cons i "is")
  let ?db = "fst (addDatabase e s t (conn_name j i))"
  let ?s3 = "s\<lparr>registry := (registry s)(conn_name j i \<mapsto> snd (setDatabaseSettings e ?db j)),
               availableNames := push (conn_name j i) j (availableNames s)\<rparr>"
  from Cons.prems(1) have step: "init_slots e t j (i # is) s = init_slots e t j is ?s3"
    by (simp add: addDatabase_def Let_def split_beta setDatabaseSettings_sqlDatabase)
  from Cons.prems(1) have new: "is_registered (conn_name j i) ?s3"
    by (simp add: is_registered_def TSqlDatabase_database_def setDatabaseSettings_sqlDatabase
        addDatabase_def Let_def)
  have old: "is_registered n ?s3" if "is_registered n s" "n \<noteq> conn_name j i"
    using that by (simp add: is_registered_def TSqlDatabase_database_def)
  from Cons.prems(2) new old have "is_registered n ?s3 \<or> n \<in> conn_name j ` set is"
    by auto
  with Cons.prems(1) have "is_registered n (init_slots e t j is ?s3)"
    by (intro Cons.IH) simp_all
  with step show ?case by simp
qed

lemma init_databases_is_registered:
  assumes "\<forall>j \<in> set js. driverType e j \<noteq> [] \<longrightarrow>
             (\<forall>i \<in> set [0..maxNumberOfThreadsPerAppServer e - 1].
                addDatabaseValid e (driverType e j) (conn_name j i))"
    and "is_registered n s \<or> (\<exists>j \<in> set js. driverType e j \<noteq> []
                        \<and> n \<in> conn_name j ` set [0..maxNumberOfThreadsPerAppServer e - 1])"
  shows "is_registered n (snd (init_databases e js aval s))"
  using assms
proof (induction js arbitrary: aval s)
  case Nil
  then show ?case by simp
next
  case (Cons j js)
  show ?case
  proof (cases "driverType e j = []")
    case True
    with Cons.prems have "is_registered n (snd (init_databases e js aval s))"
      by (intro Cons.IH) auto
    with True show ?thesis by simp
  next
    case False
    let ?s1 = "init_slots e (driverType e j) j [0..maxNumberOfThreadsPerAppServer e - 1] s"
    from Cons.prems(1) False
    have valid: "\<forall>i \<in> set [0..maxNumberOfThreadsPerAppServer e - 1].
                addDatabaseValid e (driverType e j) (conn_name j i)"
      by simp
    have "is_registered n ?s1 \<or> (\<exists>j \<in> set js. driverType e j \<noteq> []
                        \<and> n \<in> conn_name j ` set [0..maxNumberOfThreadsPerAppServer e - 1])"
    proof (cases "is_registered n s \<or> n \<in> conn_name j ` set [0..maxNumberOfThreadsPerAppServer e - 1]")
      case True
      with valid have "is_registered n ?s1"
        by (rule init_slots_is_registered)
      then show ?thesis ..
    next
      case False
      with Cons.prems(2) show ?thesis
        by auto
    qed
    with Cons.prems(1) have "is_registered n (snd (init_databases e js True ?s1))"
      by (intro Cons.IH) simp_all
    with False show ?thesis by simp
  qed
qed

lemma conn_name_distinct: "distinct xs \<Longrightarrow> distinct (map (conn_name d) xs)"
  by (simp add: distinct_map inj_on_def) (blast dest: conn_name_inj_slot)

lemma init_disabled:
  assumes "driverType e d = []"
  shows "availableNames (init e s) d = (if isSqlDatabaseAvailable e then [] else availableNames s d)"
proof -
  have "availableNames (snd (init_databases e js aval s0)) d = availableNames s0 d"
    if "distinct js" for js aval s0
    using that assms by (simp add: init_databases_availableNames)
  then show ?thesis
    by (simp add: init_def split_beta Let_def)
qed

lemma init_cached: "isSqlDatabaseAvailable e \<Longrightarrow> cachedDatabase (init e s) d = []"
  by (simp add: init_def split_beta Let_def init_databases_other)

lemma init_pool_inv:
  assumes av: "isSqlDatabaseAvailable e"
    and small: "sqlDatabaseSettingsCount e \<le> 100"
    and valid: "\<forall>j \<in> set [0..sqlDatabaseSettingsCount e - 1]. driverType e j \<noteq> [] \<longrightarrow>
             (\<forall>i \<in> set [0..maxNumberOfThreadsPerAppServer e - 1].
                addDatabaseValid e (driverType e j) (conn_name j i))"
  shows "pool_inv e (init e s) (\<lambda>_. {}) (\<lambda>d. set (availableNames (init e s) d))"
  unfolding pool_inv_def
proof
  fix d
  let ?M = "maxNumberOfThreadsPerAppServer e"
  let ?s0 = "s\<lparr>cachedDatabase := (\<lambda>_. []), availableNames := (\<lambda>_. [])\<rparr>"
  assume d: "d \<in> set [0..sqlDatabaseSettingsCount e - 1]"
  then have range: "0 \<le> d" "d < sqlDatabaseSettingsCount e"
    by simp_all
  have names: "availableNames (init e s) d =
                 (if driverType e d = [] then [] else rev (map (conn_name d) [0..?M - 1]))"
  proof (cases "driverType e d = []")
    case True
    with av show ?thesis by (simp add: init_disabled)
  next
    case False
    with valid d have "\<forall>i \<in> set [0..?M - 1]. addDatabaseValid e (driverType e d) (conn_name d i)"
      by blast
    then have tw: "takeWhile (\<lambda>i. addDatabaseValid e (driverType e d) (conn_name d i)) [0..?M - 1]
                 = [0..?M - 1]"
      by (rule takeWhile_upto_all)
    from av range False have "availableNames (init e s) d =
           rev (map (conn_name d)
                 (takeWhile (\<lambda>i. addDatabaseValid e (driverType e d) (conn_name d i))
                    [0..?M - 1]))"
      by (rule init_availableNames(1))
    then show ?thesis
      unfolding tw using False by simp
  qed
  have dist: "distinct (availableNames (init e s) d)"
    unfolding names by (simp add: conn_name_distinct)
  from av have c: "cachedDatabase (init e s) d = []"
    by (rule init_cached)
  from dist c have cons: "slots_conserved (init e s) d {} (set (availableNames (init e s) d))"
    by (simp add: slots_conserved_def names_of_def)
  have reg: "registered (init e s) d (set (availableNames (init e s) d))"
    unfolding registered_def
  proof
    fix n
    assume "n \<in> set (availableNames (init e s) d)"
    then obtain k where n: "n = conn_name d k" "k \<in> set [0..?M - 1]" and en: "driverType e d \<noteq> []"
      unfolding names by (auto split: if_splits)
    have "is_registered n (snd (init_databases e [0..sqlDatabaseSettingsCount e - 1] False ?s0))"
      using valid
    proof (rule init_databases_is_registered)
      from d en n
      show "is_registered n ?s0 \<or> (\<exists>j \<in> set [0..sqlDatabaseSettingsCount e - 1]. driverType e j \<noteq> []
                        \<and> n \<in> conn_name j ` set [0..?M - 1])"
        by blast
    qed
    with av have g: "is_registered n (init e s)"
      by (simp add: init_def split_beta Let_def is_registered_def TSqlDatabase_database_def)
    from range small have "getDatabaseId \<lparr>connectionName = conn_name d k, isValid = True\<rparr> = d"
      by (intro getDatabaseId_conn_name) simp_all
    with g n(1)
    show "connectionName (sqlDatabase (TSqlDatabase_database (init e s) n)) = n
             \<and> isValid (sqlDatabase (TSqlDatabase_database (init e s) n))
             \<and> getDatabaseId (sqlDatabase (TSqlDatabase_database (init e s) n)) = d"
      using getDatabaseId_connectionName
              [of "sqlDatabase (TSqlDatabase_database (init e s) n)"
                  "\<lparr>connectionName = conn_name d k, isValid = True\<rparr>"]
      by (simp add: is_registered_def)
  qed
  from cons reg
  show "slots_conserved (init e s) d {} (set (availableNames (init e s) d))
          \<and> registered (init e s) d (set (availableNames (init e s) d))"
    by simp
qed

subsection \<open>The states of the small configuration\<close>

text \<open>\<open>state_example\<close> is the pool of the small configuration after \<open>init\<close>, and
  \<open>state_cached\<close> is reached from it by two calls of \<open>database\<close> and two of
  \<open>pool\<close>.\<close>

lemma settings_example_values:
  "driverType env_example 0 = ''QSQLITE''"
  "trimmed (DatabaseName settings_example) = ''test.db''"
  "trimmed (HostName settings_example) = []"
  "trimmed (UserName settings_example) = []"
  "trimmed (Password settings_example) = []"
  "trimmed (ConnectOptions settings_example) = []"
  "split_skip_empty CHR '';'' (trimmed (PostOpenStatements settings_example)) = [''a '', '' b'']"
  "Port settings_example = 0"
  "EnableUpsert settings_example = False"
  by code_simp+

lemma env_example_values:
  "isSqlDatabaseAvailable env_example" "sqlDatabaseSettingsCount env_example = 1"
  "maxNumberOfThreadsPerAppServer env_example = 2"
  "sqlDatabaseSettings env_example = (\<lambda>_. settings_example)"
  "webRootPath env_example = ''/srv/''"
  "addDatabaseValid env_example = (\<lambda>type name. True)"
  "driverDbmsType env_example = (\<lambda>type. SQLite)"
  "isRelative env_example = (\<lambda>path. take 1 path \<noteq> ''/'')"
  "driverOpen env_example = (\<lambda>name. True)"
  "startedTimerId env_example = 1"
  by (simp_all add: env_example_def)

lemma setDatabaseSettings_example:
  "setDatabaseSettings env_example
     (TSqlDatabase_default
        \<lparr>sqlDatabase := \<lparr>connectionName = name, isValid = True\<rparr>,
         dbmsType := SQLite, driverName := ''QSQLITE''\<rparr>) 0
   = (True, slot_example name)"
  by (simp add: setDatabaseSettings_def Let_def env_example_values settings_example_values
      slot_example_def TSqlDatabase_default_def)

lemma init_example: "init env_example state_empty = state_example"
  by (simp add: init_def env_example_values upto_0_0 upto_0_1 settings_example_values
      addDatabase_def Let_def conn_name_examples setDatabaseSettings_example push_def
      state_empty_def state_example_def fun_upd_twist slot_example_def)

lemma trimmed_examples: "trimmed ''a '' = ''a''" "trimmed '' b'' = ''b''"
  by code_simp+

lemma state_cached_reached:
  "\<exists>s1 s2 s3.
     database env_example 0 state_example
       = Some (Inr \<lparr>connectionName = ''rdb00_1'', isValid = True\<rparr>, s1)
     \<and> database env_example 0 s1
         = Some (Inr \<lparr>connectionName = ''rdb00_0'', isValid = True\<rparr>, s2)
     \<and> pool env_example 100 s2 \<lparr>connectionName = ''rdb00_1'', isValid = True\<rparr> False
         = Inr (QSqlDatabase_default, s3)
     \<and> pool env_example 100 s3 \<lparr>connectionName = ''rdb00_0'', isValid = True\<rparr> False
         = Inr (QSqlDatabase_default, state_cached)"
proof -
  let ?h1 = "\<lparr>connectionName = ''rdb00_1'', isValid = True\<rparr>"
  let ?h0 = "\<lparr>connectionName = ''rdb00_0'', isValid = True\<rparr>"
  let ?s1 = "state_example
       \<lparr>availableNames := (\<lambda>_. [])(0 := [''rdb00_0'']),
        openConnections := {''rdb00_1''},
        executed := [(''rdb00_1'', ''a''), (''rdb00_1'', ''b'')]\<rparr>"
  let ?s2 = "state_example
       \<lparr>availableNames := (\<lambda>_. [])(0 := []),
        openConnections := {''rdb00_0'', ''rdb00_1''},
        executed := [(''rdb00_1'', ''a''), (''rdb00_1'', ''b''),
                     (''rdb00_0'', ''a''), (''rdb00_0'', ''b'')]\<rparr>"
  let ?s3 = "?s2\<lparr>cachedDatabase := (\<lambda>_. [])(0 := [''rdb00_1'']),
                 lastCachedTime := (\<lambda>_. 0)(0 := 100)\<rparr>"
  have l: "TSqlDatabase_database state_example ''rdb00_1'' = slot_example ''rdb00_1''"
    "TSqlDatabase_database state_example ''rdb00_0'' = slot_example ''rdb00_0''"
    by (simp_all add: TSqlDatabase_database_def state_example_def)
  have a1: "database env_example 0 state_example = Some (Inr ?h1, ?s1)"
    by (subst database_slow_path_open [where name = "''rdb00_1''" and rest = "[''rdb00_0'']"])
       (simp_all add: env_example_values l slot_example_def isOpen_def open_db_def exec_def
          trimmed_examples, simp_all add: state_example_def)
  have a2: "database env_example 0 ?s1 = Some (Inr ?h0, ?s2)"
    by (subst database_slow_path_open [where name = "''rdb00_0''" and rest = "[]"])
       (simp_all add: env_example_values l slot_example_def isOpen_def open_db_def exec_def
          trimmed_examples, simp_all add: state_example_def)
  have r1: "pool env_example 100 ?s2 ?h1 False = Inr (QSqlDatabase_default, ?s3)"
    by (simp add: pool_def getDatabaseId_examples env_example_values push_def)
       (simp add: state_example_def)
  have r2: "pool env_example 100 ?s3 ?h0 False = Inr (QSqlDatabase_default, state_cached)"
    by (simp add: pool_def getDatabaseId_examples env_example_values push_def state_cached_def)
  from a1 a2 r1 r2 show ?thesis
    by blast
qed

subsection \<open>The names of the registered slots\<close>

lemma conn_name_slot_digits:
  assumes "0 \<le> d" and "d < 100" and "0 \<le> i"
  shows "drop 6 (conn_name d i) = digits_nat (nat i)"
  using assms by (simp add: conn_name_def fmt_02d_two fmt_d_def)

lemma conn_name_slot_index:
  assumes "0 \<le> d" and "d < 100" and "0 \<le> i"
  shows "parse_digits 0 (drop 6 (conn_name d i)) = Some (nat i)"
  using assms by (simp add: conn_name_slot_digits parse_digits_digits_nat)

lemma init_names:
  assumes "isSqlDatabaseAvailable e" and "0 \<le> d" and "d < sqlDatabaseSettingsCount e"
    and "n \<in> set (availableNames (init e s) d)"
  shows "\<exists>k \<in> set [0..maxNumberOfThreadsPerAppServer e - 1].
           n = conn_name d k
           \<and> sqlDatabase (TSqlDatabase_database (init e s) n)
               = \<lparr>connectionName = n, isValid = True\<rparr>"
proof (cases "driverType e d = []")
  case True
  with assms show ?thesis
    by (simp add: init_disabled)
next
  case False
  let ?V = "\<lambda>i. addDatabaseValid e (driverType e d) (conn_name d i)"
  let ?M = "maxNumberOfThreadsPerAppServer e"
  from assms(1-3) False
  have "availableNames (init e s) d = rev (map (conn_name d) (takeWhile ?V [0..?M - 1]))"
    by (rule init_availableNames(1))
  with assms(4) obtain k
    where k: "k \<in> set (takeWhile ?V [0..?M - 1])" and n: "n = conn_name d k"
    by auto
  from k have mem: "k \<in> set [0..?M - 1]" and valid: "?V k"
    by (auto dest: set_takeWhileD)
  from assms(1-3) False k
  have "registry (init e s) (conn_name d k)
          = Some (snd (setDatabaseSettings e
                         (fst (addDatabase e s (driverType e d) (conn_name d k))) d))"
    by (simp add: init_registry)
  with valid have "sqlDatabase (TSqlDatabase_database (init e s) (conn_name d k))
                     = \<lparr>connectionName = conn_name d k, isValid = True\<rparr>"
    by (simp add: TSqlDatabase_database_def setDatabaseSettings_sqlDatabase addDatabase_def
        Let_def)
  with mem n show ?thesis
    by blast
qed

text \<open>
  C8. For a database index \<open>d\<close> with \<open>0 \<le> d < 100\<close> and any slot index \<open>i\<close>: the
  identifier that \<open>getDatabaseId\<close> reads from the two characters at offsets 3
  and 4 of the name \<open>rdb%02d_%d\<close> of slot \<open>i\<close> of database \<open>d\<close> is \<open>d\<close> again; for
  a slot index that is not negative the name is in the language of
  \<open>rdb[0-9]{2}_[0-9]+\<close> and the digits after the underscore read back as \<open>i\<close>;
  no other pair of indices has the same name. And these are the names that
  start-up registers: every name that \<open>init\<close> pushes onto \<open>availableNames d\<close>
  is the name of a slot \<open>k\<close> of \<open>d\<close> with \<open>0 \<le> k < maxConnects\<close>, the dictionary
  holds a connection of that name under it, and \<open>getDatabaseId\<close> of that
  connection is \<open>d\<close>.
\<close>

theorem conn_name_round_trip:
  assumes "0 \<le> d" and "d < 100"
  shows "getDatabaseId \<lparr>connectionName = conn_name d i, isValid = v\<rparr> = d
         \<and> (0 \<le> i \<longrightarrow>
              conn_name_grammar (conn_name d i)
              \<and> parse_digits 0 (drop 6 (conn_name d i)) = Some (nat i))
         \<and> (conn_name d i = conn_name d' i' \<longrightarrow> d = d' \<and> i = i')
         \<and> (isSqlDatabaseAvailable e \<and> d < sqlDatabaseSettingsCount e \<longrightarrow>
              (\<forall>n \<in> set (availableNames (init e s) d).
                  (\<exists>k \<in> set [0..maxNumberOfThreadsPerAppServer e - 1]. n = conn_name d k)
                  \<and> connectionName (sqlDatabase (TSqlDatabase_database (init e s) n)) = n
                  \<and> getDatabaseId (sqlDatabase (TSqlDatabase_database (init e s) n)) = d))"
proof (intro conjI impI ballI)
  from assms show "getDatabaseId \<lparr>connectionName = conn_name d i, isValid = v\<rparr> = d"
    by (rule getDatabaseId_conn_name)
  show "conn_name_grammar (conn_name d i)" if "0 \<le> i"
    using assms that by (rule conn_name_grammar_conn_name)
  show "parse_digits 0 (drop 6 (conn_name d i)) = Some (nat i)" if "0 \<le> i"
    using assms that by (rule conn_name_slot_index)
  show "d = d'" "i = i'" if "conn_name d i = conn_name d' i'"
    using conn_name_inj [OF that] by simp_all
  fix n
  assume e: "isSqlDatabaseAvailable e \<and> d < sqlDatabaseSettingsCount e"
    and n: "n \<in> set (availableNames (init e s) d)"
  with assms(1) obtain k where k: "k \<in> set [0..maxNumberOfThreadsPerAppServer e - 1]"
    "n = conn_name d k"
    "sqlDatabase (TSqlDatabase_database (init e s) n) = \<lparr>connectionName = n, isValid = True\<rparr>"
    using init_names [of e d n s] by auto
  from k(1,2) show "\<exists>k \<in> set [0..maxNumberOfThreadsPerAppServer e - 1]. n = conn_name d k"
    by blast
  from k(3) show "connectionName (sqlDatabase (TSqlDatabase_database (init e s) n)) = n"
    by simp
  from assms k(2,3) show "getDatabaseId (sqlDatabase (TSqlDatabase_database (init e s) n)) = d"
    by (simp add: getDatabaseId_conn_name)
qed

theorem conn_name_round_trip_witness:
  "(0::int) \<le> 3 \<and> (3::int) < 100 \<and> (0::int) \<le> 12
   \<and> conn_name 3 12 = ''rdb03_12''
   \<and> getDatabaseId \<lparr>connectionName = conn_name 3 12, isValid = True\<rparr> = 3
   \<and> conn_name_grammar (conn_name 3 12)
   \<and> parse_digits 0 (drop 6 (conn_name 3 12)) = Some 12
   \<and> isSqlDatabaseAvailable env_example \<and> (0::int) < sqlDatabaseSettingsCount env_example
   \<and> availableNames (init env_example state_empty) 0 = [''rdb00_1'', ''rdb00_0'']
   \<and> ''rdb00_1'' = conn_name 0 1
   \<and> connectionName (sqlDatabase (TSqlDatabase_database (init env_example state_empty) ''rdb00_1''))
       = ''rdb00_1''
   \<and> getDatabaseId (sqlDatabase (TSqlDatabase_database (init env_example state_empty) ''rdb00_1''))
       = 0"
proof -
  have n: "conn_name 3 12 = ''rdb03_12''"
    by code_simp
  have a: "availableNames (init env_example state_empty) 0 = [''rdb00_1'', ''rdb00_0'']"
    by (simp add: init_example state_example_def)
  from conn_name_round_trip [of 3 12 True 3 12 env_example state_empty]
  have first: "getDatabaseId \<lparr>connectionName = conn_name 3 12, isValid = True\<rparr> = 3"
    "conn_name_grammar (conn_name 3 12)"
    "parse_digits 0 (drop 6 (conn_name 3 12)) = Some 12"
    by simp_all
  from conn_name_round_trip [of 0 1 True 0 1 env_example state_empty]
  have "connectionName (sqlDatabase (TSqlDatabase_database (init env_example state_empty) ''rdb00_1''))
       = ''rdb00_1''"
    "getDatabaseId (sqlDatabase (TSqlDatabase_database (init env_example state_empty) ''rdb00_1''))
       = 0"
    by (simp_all add: a env_example_values)
  with first n a show ?thesis
    by (simp add: env_example_values conn_name_examples)
qed

end
